theory Spec2Isabelle
  imports Main "HOL-Library.Multiset"
begin

section \<open>Python and library primitives\<close>

text \<open>
  Exceptions are values. \<open>ValueError\<close> is kept apart from the other exception classes
  because two handlers of \<^verbatim>\<open>project.py\<close> catch \<^verbatim>\<open>ValueError\<close> only. \<open>LibError\<close> stands for
  any exception raised inside the PDF library or the operating system; its string names the
  failing call, the real message being unknown. \<open>Exception\<close> is a plain
  \<^verbatim>\<open>Exception(msg)\<close> raised by the program itself.
\<close>

datatype error =
    ValueError string
  | IndexError string
  | LibError string
  | Exception string

fun str_of :: "error \<Rightarrow> string" where
  "str_of (ValueError m) = m"
| "str_of (IndexError m) = m"
| "str_of (LibError m) = m"
| "str_of (Exception m) = m"

text \<open>Sequencing of two steps of which the first may raise.\<close>

definition and_then :: "error + 'a \<Rightarrow> ('a \<Rightarrow> error + 'b) \<Rightarrow> error + 'b" where
  "and_then r f = (case r of Inl e \<Rightarrow> Inl e | Inr x \<Rightarrow> f x)"

text \<open>\<^verbatim>\<open>range(a, b)\<close>: the integers \<open>a, a + 1, ..., b - 1\<close>, none when \<open>b \<le> a\<close>.\<close>

definition range_py :: "int \<Rightarrow> int \<Rightarrow> int list" where
  "range_py a b = [a..b - 1]"

text \<open>\<^verbatim>\<open>xs[i]\<close> on a Python list: a negative index counts from the end.\<close>

definition py_index :: "'a list \<Rightarrow> int \<Rightarrow> error + 'a" where
  "py_index xs i =
     (if 0 \<le> i \<and> i < int (length xs) then Inr (xs ! nat i)
      else if i < 0 \<and> - int (length xs) \<le> i then Inr (xs ! nat (int (length xs) + i))
      else Inl (IndexError ''list index out of range''))"

text \<open>\<^verbatim>\<open>xs[:k]\<close> on a Python list: a negative bound counts from the end.\<close>

definition py_slice_to :: "'a list \<Rightarrow> int \<Rightarrow> 'a list" where
  "py_slice_to xs k =
     (if 0 \<le> k then take (nat k) xs else take (nat (int (length xs) + k)) xs)"

subsection \<open>The PDF library\<close>

text \<open>
  A \<^verbatim>\<open>fitz.Document\<close> handle. The pages are opaque values of type \<open>'p\<close>. A handle that
  has been closed keeps its name; reading its length or its pages raises
  \<^verbatim>\<open>ValueError("document closed")\<close>.
\<close>

record 'p document =
  name :: string
  pages :: "'p list"
  is_pdf :: bool
  closed :: bool

text \<open>A file on disk: whether it is a PDF, and its pages.\<close>

type_synonym 'p disk_file = "bool \<times> 'p list"

text \<open>
  What the program cannot decide: which calls into the library and the operating system
  fail, and what \<^verbatim>\<open>insert_pdf\<close> does with a page number outside the source document
  (\<open>insert_oob\<close> gives the pages it appends, or the exception it raises).
\<close>

record 'p lib =
  insert_oob :: "'p list \<Rightarrow> int \<Rightarrow> error + 'p list"
  save_ok :: "string \<Rightarrow> bool"
  replace_ok :: bool
  open_ok :: "string \<Rightarrow> bool"
  makedirs_ok :: bool

text \<open>\<^verbatim>\<open>len(doc)\<close>.\<close>

definition doc_len :: "'p document \<Rightarrow> error + int" where
  "doc_len d =
     (if closed d then Inl (ValueError ''document closed'')
      else Inr (int (length (pages d))))"

text \<open>
  Truth value of \<^verbatim>\<open>self.current_pdf\<close>: \<^verbatim>\<open>None\<close> is false, and a document, having
  \<^verbatim>\<open>__len__\<close> and no \<^verbatim>\<open>__bool__\<close>, is true when it has at least one page.
\<close>

definition truthy :: "'p document option \<Rightarrow> error + bool" where
  "truthy c =
     (case c of None \<Rightarrow> Inr False
      | Some d \<Rightarrow> and_then (doc_len d) (\<lambda>n. Inr (n \<noteq> 0)))"

text \<open>\<^verbatim>\<open>new_pdf.insert_pdf(src, from_page=i, to_page=i)\<close>; \<open>new\<close> is the page list of
  the document under construction.\<close>

definition insert_pdf :: "'p lib \<Rightarrow> 'p list \<Rightarrow> 'p document \<Rightarrow> int \<Rightarrow> error + 'p list" where
  "insert_pdf lib new src i =
     (if closed src then Inl (ValueError ''document closed'')
      else if 0 \<le> i \<and> i < int (length (pages src)) then Inr (new @ [pages src ! nat i])
      else and_then (insert_oob lib (pages src) i) (\<lambda>ps. Inr (new @ ps)))"

text \<open>\<^verbatim>\<open>fitz.open(path)\<close> on the files \<open>fs\<close>.\<close>

definition fitz_open :: "'p lib \<Rightarrow> (string \<rightharpoonup> 'p disk_file) \<Rightarrow> string \<Rightarrow> error + 'p document" where
  "fitz_open lib fs path =
     (if \<not> open_ok lib path then Inl (LibError ''fitz.open'')
      else case fs path of
             None \<Rightarrow> Inl (LibError ''fitz.open'')
           | Some (pdf, ps) \<Rightarrow>
               Inr \<lparr>name = path, pages = ps, is_pdf = pdf, closed = False\<rparr>)"

section \<open>The page reorder engine\<close>

text \<open>
  \<^verbatim>\<open>for i in idxs: new_pdf.insert_pdf(src, from_page=i, to_page=i)\<close>
\<close>

fun copy_pages :: "'p lib \<Rightarrow> 'p list \<Rightarrow> 'p document \<Rightarrow> int list \<Rightarrow> error + 'p list" where
  "copy_pages lib new src [] = Inr new"
| "copy_pages lib new src (i # idxs) =
     and_then (insert_pdf lib new src i) (\<lambda>new'. copy_pages lib new' src idxs)"

text \<open>
  The block that \<^verbatim>\<open>ThumbnailWidget.move_page\<close> (lines 255-290) and
  \<^verbatim>\<open>PDFApp._move_page\<close> (lines 438-475) share word for word: the new document is filled
  from the current one, \<open>source\<close> and \<open>target\<close> zero-based.
\<close>

definition reorder_pages :: "'p lib \<Rightarrow> 'p document \<Rightarrow> int \<Rightarrow> int \<Rightarrow> error + 'p list" where
  "reorder_pages lib pdf source target =
     (if target > source then
        and_then (copy_pages lib [] pdf (range_py 0 source)) (\<lambda>n1.
        and_then (copy_pages lib n1 pdf (map (\<lambda>i. i + 1) (range_py source target))) (\<lambda>n2.
        and_then (insert_pdf lib n2 pdf source) (\<lambda>n3.
        and_then (doc_len pdf) (\<lambda>n.
        copy_pages lib n3 pdf (range_py (target + 1) n)))))
      else
        and_then (copy_pages lib [] pdf (range_py 0 target)) (\<lambda>n1.
        and_then (insert_pdf lib n1 pdf source) (\<lambda>n2.
        and_then (copy_pages lib n2 pdf (range_py target source)) (\<lambda>n3.
        and_then (doc_len pdf) (\<lambda>n.
        copy_pages lib n3 pdf (range_py (source + 1) n))))))"

text \<open>
  The sequential-list operation the reorder is compared with: take the element at
  \<open>source\<close> out of the list, then put it back at position \<open>target\<close>.
\<close>

definition remove_at :: "nat \<Rightarrow> 'a list \<Rightarrow> 'a list" where
  "remove_at i xs = take i xs @ drop (Suc i) xs"

definition insert_at :: "nat \<Rightarrow> 'a \<Rightarrow> 'a list \<Rightarrow> 'a list" where
  "insert_at i x xs = take i xs @ x # drop i xs"

definition remove_reinsert :: "'a list \<Rightarrow> nat \<Rightarrow> nat \<Rightarrow> 'a list" where
  "remove_reinsert xs source target = insert_at target (xs ! source) (remove_at source xs)"


section \<open>The session and its move history\<close>

text \<open>
  A message box shown to the user.
\<close>

datatype dialog = Warning string | Critical string | Information string

text \<open>
  The attributes of \<^verbatim>\<open>PDFApp\<close> that the operations below read or write, the message
  boxes shown so far, and the files on disk. Widgets, the zoom factor and the merge list are
  left out: no operation modelled here reads them.
\<close>

record 'p state =
  current_pdf :: "'p document option"
  current_page :: "int option"
  move_history :: "(int \<times> int) list"
  history_index :: int
  dialogs :: "dialog list"
  files :: "string \<rightharpoonup> 'p disk_file"

definition show_dialog :: "dialog \<Rightarrow> 'p state \<Rightarrow> 'p state" where
  "show_dialog d s = s\<lparr>dialogs := dialogs s @ [d]\<rparr>"

text \<open>\<^verbatim>\<open>PDFApp._init_state\<close>.\<close>

definition init_state :: "(string \<rightharpoonup> 'p disk_file) \<Rightarrow> 'p state" where
  "init_state fs =
     \<lparr>current_pdf = None, current_page = None, move_history = [], history_index = - 1,
      dialogs = [], files = fs\<rparr>"

text \<open>\<^verbatim>\<open>PDFApp.add_to_move_history\<close>.\<close>

definition add_to_move_history :: "'p state \<Rightarrow> int \<Rightarrow> int \<Rightarrow> 'p state" where
  "add_to_move_history s source target =
     (let h = (if history_index s < int (length (move_history s)) - 1
               then py_slice_to (move_history s) (history_index s + 1)
               else move_history s);
          h' = h @ [(source, target)]
      in s\<lparr>move_history := h', history_index := int (length h') - 1\<rparr>)"

text \<open>
  The statements that \<^verbatim>\<open>ThumbnailWidget.move_page\<close> (lines 255-304) and
  \<^verbatim>\<open>PDFApp._move_page\<close> (lines 438-489) share: build the reordered document, save it
  beside the original, close the handle, replace the original file, open it again. The
  result is the exception raised, if any, and the state at that moment. Redrawing the page
  and the thumbnails changes nothing modelled here.
\<close>

definition rebuild_and_replace ::
  "'p lib \<Rightarrow> 'p state \<Rightarrow> int \<Rightarrow> int \<Rightarrow> error option \<times> 'p state" where
  "rebuild_and_replace lib s source target =
     (case current_pdf s of
        None \<Rightarrow> (Some (LibError ''insert_pdf''), s)
      | Some pdf \<Rightarrow>
          (case reorder_pages lib pdf source target of
             Inl e \<Rightarrow> (Some e, s)
           | Inr new \<Rightarrow>
               let temp_path = name pdf @ ''.temp'' in
               if \<not> save_ok lib temp_path then (Some (LibError ''save''), s)
               else
                 let s1 = s\<lparr>files := (files s)(temp_path \<mapsto> (True, new))\<rparr>;
                     s2 = s1\<lparr>current_pdf := Some (pdf\<lparr>closed := True\<rparr>)\<rparr>
                 in if \<not> replace_ok lib then (Some (LibError ''os.replace''), s2)
                    else
                      let s3 = s2\<lparr>files := (files s2)
                                 (name pdf := files s2 temp_path, temp_path := None)\<rparr>
                      in (case fitz_open lib (files s3) (name pdf) of
                            Inl e \<Rightarrow> (Some e, s3)
                          | Inr d \<Rightarrow> (None, s3\<lparr>current_pdf := Some d\<rparr>))))"

text \<open>\<^verbatim>\<open>PDFApp._move_page(source, target)\<close>, the arguments one-based.\<close>

definition PDFApp_move_page ::
  "'p lib \<Rightarrow> 'p state \<Rightarrow> int \<Rightarrow> int \<Rightarrow> error option \<times> 'p state" where
  "PDFApp_move_page lib s source target =
     (case rebuild_and_replace lib s (source - 1) (target - 1) of
        (Some e, s') \<Rightarrow> (Some (Exception (''Error moving page: '' @ str_of e)), s')
      | (None, s') \<Rightarrow> (None, s'))"

text \<open>\<^verbatim>\<open>PDFApp.undo_page\<close>. The guard stands outside the \<^verbatim>\<open>try\<close>.\<close>

definition undo_page :: "'p lib \<Rightarrow> 'p state \<Rightarrow> error option \<times> 'p state" where
  "undo_page lib s =
     (case truthy (current_pdf s) of
        Inl e \<Rightarrow> (Some e, s)
      | Inr has_pdf \<Rightarrow>
          if \<not> has_pdf \<or> history_index s < 0 then (None, s)
          else
            (case py_index (move_history s) (history_index s) of
               Inl e \<Rightarrow>
                 (None, show_dialog (Critical (''Error undoing page move: '' @ str_of e)) s)
             | Inr (source, target) \<Rightarrow>
                 (case PDFApp_move_page lib s (target + 1) (source + 1) of
                    (Some e, s') \<Rightarrow>
                      (None,
                       show_dialog (Critical (''Error undoing page move: '' @ str_of e)) s')
                  | (None, s') \<Rightarrow>
                      (None, s'\<lparr>history_index := history_index s' - 1\<rparr>))))"

text \<open>\<^verbatim>\<open>PDFApp.redo_page\<close>. The cursor is advanced first, inside the \<^verbatim>\<open>try\<close>.\<close>

definition redo_page :: "'p lib \<Rightarrow> 'p state \<Rightarrow> error option \<times> 'p state" where
  "redo_page lib s =
     (case truthy (current_pdf s) of
        Inl e \<Rightarrow> (Some e, s)
      | Inr has_pdf \<Rightarrow>
          if \<not> has_pdf \<or> history_index s \<ge> int (length (move_history s)) - 1 then (None, s)
          else
            let s1 = s\<lparr>history_index := history_index s + 1\<rparr> in
            (case py_index (move_history s1) (history_index s1) of
               Inl e \<Rightarrow>
                 (None, show_dialog (Critical (''Error redoing page move: '' @ str_of e)) s1)
             | Inr (source, target) \<Rightarrow>
                 (case PDFApp_move_page lib s1 (source + 1) (target + 1) of
                    (Some e, s') \<Rightarrow>
                      (None,
                       show_dialog (Critical (''Error redoing page move: '' @ str_of e)) s')
                  | (None, s') \<Rightarrow> (None, s'))))"

text \<open>
  \<^verbatim>\<open>PDFApp.close_pdf\<close>. Its whole body is inside a \<^verbatim>\<open>try\<close> that reports every
  exception, so it never raises.
\<close>

definition close_pdf :: "'p state \<Rightarrow> 'p state" where
  "close_pdf s =
     (case truthy (current_pdf s) of
        Inl e \<Rightarrow> show_dialog (Critical (''Error closing PDF: '' @ str_of e)) s
      | Inr has_pdf \<Rightarrow>
          if has_pdf then s\<lparr>current_pdf := None, current_page := None\<rparr> else s)"

text \<open>\<^verbatim>\<open>PDFApp._load_and_display_pdf(fname)\<close>.\<close>

definition load_and_display_pdf ::
  "'p lib \<Rightarrow> 'p state \<Rightarrow> string \<Rightarrow> error option \<times> 'p state" where
  "load_and_display_pdf lib s fname =
     (let s1 = close_pdf s in
      case fitz_open lib (files s1) fname of
        Inl e \<Rightarrow> (Some e, close_pdf s1)
      | Inr d \<Rightarrow>
          let s2 = s1\<lparr>current_pdf := Some d\<rparr> in
          if \<not> is_pdf d then (Some (ValueError ''Not a valid PDF file''), close_pdf s2)
          else (None, s2\<lparr>current_page := Some 0\<rparr>))"


section \<open>Text input\<close>

text \<open>
  Strings are byte strings here; the whitespace and digits of Python beyond ASCII are not
  modelled. \<open>is_space\<close> is the ASCII part of \<^verbatim>\<open>str.isspace\<close>.
\<close>

definition is_space :: "char \<Rightarrow> bool" where
  "is_space c = ((of_char c :: nat) \<in> {9, 10, 11, 12, 13, 28, 29, 30, 31, 32})"

text \<open>\<^verbatim>\<open>s.strip()\<close>.\<close>

definition py_strip :: "string \<Rightarrow> string" where
  "py_strip s = rev (dropWhile is_space (rev (dropWhile is_space s)))"

text \<open>\<^verbatim>\<open>s.split(c)\<close> for a separator of one character.\<close>

fun split_on :: "char \<Rightarrow> string \<Rightarrow> string list" where
  "split_on c [] = [[]]"
| "split_on c (x # xs) =
     (if x = c then [] # split_on c xs
      else (case split_on c xs of
              [] \<Rightarrow> [[x]]
            | w # ws \<Rightarrow> (x # w) # ws))"

text \<open>\<^verbatim>\<open>s.rsplit(c, 1)[0]\<close>: what stands before the last \<open>c\<close>, or all of \<open>s\<close>.\<close>

definition before_last :: "char \<Rightarrow> string \<Rightarrow> string" where
  "before_last c s =
     (if c \<in> set s then rev (tl (dropWhile (\<lambda>x. x \<noteq> c) (rev s))) else s)"

definition digit_val :: "char \<Rightarrow> nat option" where
  "digit_val c =
     (let n = (of_char c :: nat) in if 48 \<le> n \<and> n \<le> 57 then Some (n - 48) else None)"

text \<open>
  The digits after the first one, \<open>acc\<close> being the value read so far. One underscore may
  stand between two digits.
\<close>

fun more_digits :: "nat \<Rightarrow> string \<Rightarrow> nat option" where
  "more_digits acc [] = Some acc"
| "more_digits acc (c # cs) =
     (if c = CHR ''_'' then
        (case cs of
           [] \<Rightarrow> None
         | d # ds \<Rightarrow>
             (case digit_val d of
                None \<Rightarrow> None
              | Some v \<Rightarrow> more_digits (10 * acc + v) ds))
      else
        (case digit_val c of
           None \<Rightarrow> None
         | Some v \<Rightarrow> more_digits (10 * acc + v) cs))"

text \<open>
  \<^verbatim>\<open>int(s)\<close> for a string: surrounding whitespace, an optional sign, decimal digits. The
  message of the \<^verbatim>\<open>ValueError\<close> leaves out the quoted input, and the bound that recent
  versions of Python put on the number of digits is not modelled.
\<close>

definition py_int :: "string \<Rightarrow> error + int" where
  "py_int s =
     (let t = py_strip s;
          (neg, body) =
            (case t of
               [] \<Rightarrow> (False, t)
             | c # r \<Rightarrow>
                 if c = CHR ''-'' then (True, r)
                 else if c = CHR ''+'' then (False, r)
                 else (False, t))
      in case body of
           [] \<Rightarrow> Inl (ValueError ''invalid literal for int() with base 10'')
         | c # cs \<Rightarrow>
             (case digit_val c of
                None \<Rightarrow> Inl (ValueError ''invalid literal for int() with base 10'')
              | Some v \<Rightarrow>
                  (case more_digits v cs of
                     None \<Rightarrow> Inl (ValueError ''invalid literal for int() with base 10'')
                   | Some n \<Rightarrow> Inr (if neg then - int n else int n))))"

text \<open>\<^verbatim>\<open>str(n)\<close> for a natural number.\<close>

fun str_nat :: "nat \<Rightarrow> string" where
  "str_nat n =
     (if n < 10 then [char_of (48 + n)]
      else str_nat (n div 10) @ [char_of (48 + n mod 10)])"

section \<open>Moving a page from the thumbnail panel\<close>

text \<open>
  Lines 237-249 of \<^verbatim>\<open>ThumbnailWidget.move_page\<close>: the text \<^verbatim>\<open>"source,target"\<close> is read
  and checked against the document. \<^verbatim>\<open>or\<close> evaluates its operands from the left and
  stops at the first true one.
\<close>

definition parse_move :: "'p document \<Rightarrow> string \<Rightarrow> error + (int \<times> int)" where
  "parse_move pdf text0 =
     (let text = py_strip text0; nums = split_on CHR '','' text in
      if length nums \<noteq> 2 then Inl (ValueError ''Invalid format'')
      else
        and_then (py_int (nums ! 0)) (\<lambda>a.
        and_then (py_int (nums ! 1)) (\<lambda>b.
          let source = a - 1; target = b - 1;
              invalid = Inl (ValueError ''Invalid page numbers'')
          in if source < 0 then invalid
             else and_then (doc_len pdf) (\<lambda>n.
               if source \<ge> n \<or> target < 0 then invalid
               else and_then (doc_len pdf) (\<lambda>m.
                 if target \<ge> m then invalid else Inr (source, target))))))"

text \<open>
  \<^verbatim>\<open>ThumbnailWidget.move_page\<close>, \<open>text0\<close> being the content of the input field. The
  first guard stands outside every \<^verbatim>\<open>try\<close>; the outer handler catches
  \<^verbatim>\<open>ValueError\<close> only, the inner one everything.
\<close>

definition ThumbnailWidget_move_page ::
  "'p lib \<Rightarrow> 'p state \<Rightarrow> string \<Rightarrow> error option \<times> 'p state" where
  "ThumbnailWidget_move_page lib s text0 =
     (case truthy (current_pdf s) of
        Inl e \<Rightarrow> (Some e, s)
      | Inr has_pdf \<Rightarrow>
          (case current_pdf s of
             None \<Rightarrow> (None, show_dialog (Warning ''Please open a PDF first'') s)
           | Some pdf \<Rightarrow>
               if \<not> has_pdf then (None, show_dialog (Warning ''Please open a PDF first'') s)
               else
                 (case parse_move pdf text0 of
                    Inl (ValueError m) \<Rightarrow>
                      (None,
                       show_dialog (Warning ''Please use format: source,target (e.g., 2,3)'') s)
                  | Inl e \<Rightarrow> (Some e, s)
                  | Inr (source, target) \<Rightarrow>
                      if source = target then (None, s)
                      else
                        (case rebuild_and_replace lib s source target of
                           (Some e, s') \<Rightarrow>
                             (None,
                              show_dialog (Critical (''Error moving pages: '' @ str_of e)) s')
                         | (None, s') \<Rightarrow> (None, add_to_move_history s' source target)))))"

section \<open>Splitting\<close>

text \<open>
  \<^verbatim>\<open>start, end = map(int, parts)\<close>: the items are converted one after the other while
  they are unpacked, and a count other than two is a \<^verbatim>\<open>ValueError\<close> as well.
\<close>

fun unpack2 :: "string list \<Rightarrow> error + (int \<times> int)" where
  "unpack2 [] = Inl (ValueError ''not enough values to unpack (expected 2, got 0)'')"
| "unpack2 [x] =
     and_then (py_int x) (\<lambda>a.
       Inl (ValueError ''not enough values to unpack (expected 2, got 1)''))"
| "unpack2 [x, y] =
     and_then (py_int x) (\<lambda>a. and_then (py_int y) (\<lambda>b. Inr (a, b)))"
| "unpack2 (x # y # z # rest) =
     and_then (py_int x) (\<lambda>a. and_then (py_int y) (\<lambda>b. and_then (py_int z) (\<lambda>c.
       Inl (ValueError ''too many values to unpack (expected 2)''))))"

text \<open>The body of the loop over the segments of one group (lines 763-771).\<close>

definition add_segment :: "int set \<Rightarrow> string \<Rightarrow> error + int set" where
  "add_segment page_set segment0 =
     (let segment = py_strip segment0 in
      if CHR ''-'' \<in> set segment then
        and_then (unpack2 (split_on CHR ''-'' segment)) (\<lambda>(start, stop).
          Inr (page_set \<union> set (range_py (start - 1) stop)))
      else
        and_then (py_int segment) (\<lambda>n. Inr (insert (n - 1) page_set)))"

fun add_segments :: "int set \<Rightarrow> string list \<Rightarrow> error + int set" where
  "add_segments page_set [] = Inr page_set"
| "add_segments page_set (segment # segments) =
     and_then (add_segment page_set segment) (\<lambda>page_set'. add_segments page_set' segments)"

text \<open>One group (lines 759-774): the set \<^verbatim>\<open>pages\<close> is filled, then sorted.\<close>

definition parse_group :: "string \<Rightarrow> error + int list" where
  "parse_group part =
     and_then (add_segments {} (split_on CHR '','' part)) (\<lambda>page_set.
       Inr (sorted_list_of_set page_set))"

fun parse_groups :: "string list \<Rightarrow> error + int list list" where
  "parse_groups [] = Inr []"
| "parse_groups (part # parts) =
     and_then (parse_group part) (\<lambda>g.
     and_then (parse_groups parts) (\<lambda>gs. Inr (g # gs)))"

text \<open>
  \<^verbatim>\<open>any(p < 0 or p >= len(self.current_pdf) for p in all_pages)\<close>, which stops at the
  first page that is out of range.
\<close>

fun any_invalid :: "'p document \<Rightarrow> int list \<Rightarrow> error + bool" where
  "any_invalid pdf [] = Inr False"
| "any_invalid pdf (p # ps) =
     (if p < 0 then Inr True
      else and_then (doc_len pdf) (\<lambda>n. if p \<ge> n then Inr True else any_invalid pdf ps))"

text \<open>Lines 754-779: the groups of the text, parsed and validated.\<close>

definition parse_page_groups :: "'p document \<Rightarrow> string \<Rightarrow> error + int list list" where
  "parse_page_groups pdf ranges_text =
     and_then (parse_groups (split_on CHR '';'' ranges_text)) (\<lambda>page_groups.
     and_then (any_invalid pdf (concat page_groups)) (\<lambda>bad.
       if bad then Inl (ValueError ''Invalid page numbers'') else Inr page_groups))"

text \<open>
  The loop of lines 796-807, \<open>i\<close> counting the groups written so far: each group becomes
  a document saved as \<^verbatim>\<open>part<i+1>.pdf\<close>. The files written before a failure stay.
\<close>

fun write_parts ::
  "'p lib \<Rightarrow> 'p document \<Rightarrow> string \<Rightarrow> nat \<Rightarrow> int list list \<Rightarrow> (string \<rightharpoonup> 'p disk_file)
     \<Rightarrow> error option \<times> (string \<rightharpoonup> 'p disk_file)" where
  "write_parts lib pdf split_folder i [] fs = (None, fs)"
| "write_parts lib pdf split_folder i (page_nums # rest) fs =
     (case copy_pages lib [] pdf page_nums of
        Inl e \<Rightarrow> (Some e, fs)
      | Inr output_pdf \<Rightarrow>
          let output_path = split_folder @ ''/part'' @ str_nat (i + 1) @ ''.pdf'' in
          if \<not> save_ok lib output_path then (Some (LibError ''save''), fs)
          else write_parts lib pdf split_folder (i + 1) rest
                 (fs(output_path \<mapsto> (True, output_pdf))))"

text \<open>
  \<^verbatim>\<open>PDFApp.split_pdf\<close>; \<open>text0\<close> is the content of the input field and
  \<open>output_dir\<close> what the directory dialog returns, empty when it is cancelled.
  Directories are not part of \<open>files\<close>.
\<close>

definition split_pdf ::
  "'p lib \<Rightarrow> 'p state \<Rightarrow> string \<Rightarrow> string \<Rightarrow> error option \<times> 'p state" where
  "split_pdf lib s text0 output_dir =
     (case truthy (current_pdf s) of
        Inl e \<Rightarrow> (Some e, s)
      | Inr has_pdf \<Rightarrow>
          (case current_pdf s of
             None \<Rightarrow> (None, show_dialog (Warning ''Please open a PDF first'') s)
           | Some pdf \<Rightarrow>
               if \<not> has_pdf then (None, show_dialog (Warning ''Please open a PDF first'') s)
               else
                 let ranges_text = py_strip text0 in
                 if ranges_text = [] then
                   (None, show_dialog (Warning ''Please enter page ranges'') s)
                 else
                   (case parse_page_groups pdf ranges_text of
                      Inl (ValueError m) \<Rightarrow>
                        (None,
                         show_dialog (Warning
                           ''Please enter valid page numbers in format: 1,4;2-3;5-6'') s)
                    | Inl e \<Rightarrow>
                        (None,
                         show_dialog (Critical (''Error splitting PDF: '' @ str_of e)) s)
                    | Inr page_groups \<Rightarrow>
                        if output_dir = [] then (None, s)
                        else
                          let base_name =
                                last (split_on (CHR 0x5C)
                                  (last (split_on CHR ''/'' (before_last CHR ''.'' (name pdf)))));
                              split_folder = output_dir @ ''/'' @ base_name @ ''_split''
                          in if \<not> makedirs_ok lib then
                               (None,
                                show_dialog (Critical
                                  (''Error splitting PDF: '' @ str_of (LibError ''os.makedirs''))) s)
                             else
                               (case write_parts lib pdf split_folder 0 page_groups (files s) of
                                  (Some e, fs) \<Rightarrow>
                                    (None,
                                     show_dialog
                                       (Critical (''Error splitting PDF: '' @ str_of e))
                                       (s\<lparr>files := fs\<rparr>))
                                | (None, fs) \<Rightarrow>
                                    (None,
                                     show_dialog
                                       (Information (''PDF split successfully into ''
                                          @ str_nat (length page_groups) @ '' parts!''))
                                       (s\<lparr>files := fs\<rparr>))))))"


section \<open>Notions of the specification\<close>

text \<open>A recorded move is active when the cursor points at a record of the history.\<close>

definition cursor_on_record :: "'p state \<Rightarrow> bool" where
  "cursor_on_record s =
     (0 \<le> history_index s \<and> history_index s < int (length (move_history s)))"

text \<open>
  The invariant of the move history: the cursor lies between \<open>-1\<close> and the last record,
  and it is \<open>-1\<close> exactly when no recorded move is active.
\<close>

definition history_invariant :: "'p state \<Rightarrow> bool" where
  "history_invariant s =
     (- 1 \<le> history_index s
      \<and> history_index s < max (int (length (move_history s))) 1
      \<and> (history_index s = - 1 \<longleftrightarrow> \<not> cursor_on_record s))"

text \<open>Every recorded move names two pages of the current document.\<close>

definition history_in_range :: "'p state \<Rightarrow> bool" where
  "history_in_range s =
     (case current_pdf s of
        None \<Rightarrow> True
      | Some pdf \<Rightarrow>
          list_all (\<lambda>(a, b). 0 \<le> a \<and> a < int (length (pages pdf))
                            \<and> 0 \<le> b \<and> b < int (length (pages pdf)))
            (move_history s))"

text \<open>
  The range syntax as the specification words it: an item is a single one-based page
  number or an inclusive one-based range \<^verbatim>\<open>start-end\<close>, and it stands for a set of
  zero-based page indices.
\<close>

datatype item = Single int | Range int int

fun item_pages :: "item \<Rightarrow> int set" where
  "item_pages (Single n) = {n - 1}"
| "item_pages (Range start stop) = {start - 1..stop - 1}"

definition read_item :: "string \<Rightarrow> item option" where
  "read_item segment =
     (case split_on CHR ''-'' (py_strip segment) of
        [x] \<Rightarrow> (case py_int x of Inl e \<Rightarrow> None | Inr n \<Rightarrow> Some (Single n))
      | [x, y] \<Rightarrow>
          (case py_int x of
             Inl e \<Rightarrow> None
           | Inr a \<Rightarrow> (case py_int y of Inl e \<Rightarrow> None | Inr b \<Rightarrow> Some (Range a b)))
      | _ \<Rightarrow> None)"

text \<open>
  A group is a comma-separated list of items; its pages are the union of the items' pages,
  in ascending order. \<open>None\<close> when some item is not well formed.
\<close>

definition group_pages :: "string \<Rightarrow> int list option" where
  "group_pages part =
     (let items = map read_item (split_on CHR '','' part) in
      if list_all (\<lambda>r. r \<noteq> None) items
      then Some (sorted_list_of_set
                  (\<Union>r\<in>set items. case r of None \<Rightarrow> {} | Some it \<Rightarrow> item_pages it))
      else None)"

text \<open>A range item whose start lies after its end.\<close>

definition descending_range :: "string \<Rightarrow> bool" where
  "descending_range segment =
     (case read_item segment of Some (Range a b) \<Rightarrow> a > b | _ \<Rightarrow> False)"

section \<open>An example session\<close>

text \<open>
  A library in which every call succeeds and a page number outside the document is an
  error; a document of five pages; the session that has it open.
\<close>

definition example_lib :: "nat lib" where
  "example_lib =
     \<lparr>insert_oob = (\<lambda>ps i. Inl (LibError ''insert_pdf'')), save_ok = (\<lambda>path. True),
      replace_ok = True, open_ok = (\<lambda>path. True), makedirs_ok = True\<rparr>"

definition example_pdf :: "nat document" where
  "example_pdf = \<lparr>name = ''a.pdf'', pages = [10, 11, 12, 13, 14], is_pdf = True, closed = False\<rparr>"

definition example_state :: "nat state" where
  "example_state =
     \<lparr>current_pdf = Some example_pdf, current_page = Some 0, move_history = [],
      history_index = - 1, dialogs = [],
      files = [''a.pdf'' \<mapsto> (True, [10, 11, 12, 13, 14])]\<rparr>"

text \<open>The same session after page 2 was moved to position 4 and the move undone.\<close>

definition example_undone :: "nat state" where
  "example_undone = example_state\<lparr>move_history := [(1, 3)], history_index := - 1\<rparr>"

text \<open>The session after page 2 was moved to position 4.\<close>

definition example_moved :: "nat state" where
  "example_moved =
     \<lparr>current_pdf =
        Some \<lparr>name = ''a.pdf'', pages = [10, 12, 13, 11, 14], is_pdf = True, closed = False\<rparr>,
      current_page = Some 0, move_history = [(1, 3)], history_index = 0, dialogs = [],
      files = [''a.pdf'' \<mapsto> (True, [10, 12, 13, 11, 14])]\<rparr>"

text \<open>A library whose \<^verbatim>\<open>save\<close> fails, as on a full disk.\<close>

definition failing_lib :: "nat lib" where
  "failing_lib = example_lib\<lparr>save_ok := (\<lambda>path. False)\<rparr>"

text \<open>
  The session after page 2 was moved to position 4, with a second document of five pages
  on disk beside the first.
\<close>

definition example_two_files :: "nat state" where
  "example_two_files =
     example_moved\<lparr>files := (files example_moved)(''c.pdf'' \<mapsto> (True, [30, 31, 32, 33, 34]))\<rparr>"

section \<open>Auxiliary facts\<close>

subsection \<open>Ranges and lists\<close>

lemma and_then_simps [simp]:
  "and_then (Inl e) f = Inl e"
  "and_then (Inr x) f = f x"
  by (simp_all add: and_then_def)

lemma range_py_upt: "0 \<le> a \<Longrightarrow> range_py a b = map int [nat a..<nat b]"
proof (induction "nat (b - a)" arbitrary: b)
  case 0
  then show ?case by (simp add: range_py_def)
next
  case (Suc k)
  then have ab: "a < b" by linarith
  have k: "k = nat ((b - 1) - a)" using Suc.hyps(2) by linarith
  have IH: "range_py a (b - 1) = map int [nat a..<nat (b - 1)]"
    using Suc.hyps(1)[OF k Suc.prems] .
  have "range_py a b = range_py a (b - 1) @ [b - 1]"
    using ab by (simp add: range_py_def upto_rec2)
  moreover have "[nat a..<nat b] = [nat a..<nat (b - 1)] @ [nat (b - 1)]"
  proof -
    have "nat b = Suc (nat (b - 1))" using ab Suc.prems by linarith
    moreover have "nat a \<le> nat (b - 1)" using ab by linarith
    ultimately show ?thesis by simp
  qed
  ultimately show ?case using IH ab Suc.prems by simp
qed

lemma map_nth_upt_take_drop:
  "n \<le> length xs \<Longrightarrow> map ((!) xs) [m..<n] = take (n - m) (drop m xs)"
  by (rule nth_equalityI) auto

lemma map_nth_range_py:
  assumes "0 \<le> a" "b \<le> int (length xs)"
  shows "map (\<lambda>i. xs ! nat i) (range_py a b) = take (nat b - nat a) (drop (nat a) xs)"
proof -
  have "map (\<lambda>i. xs ! nat i) (range_py a b) = map ((!) xs) [nat a..<nat b]"
    using assms by (simp add: range_py_upt o_def)
  also have "\<dots> = take (nat b - nat a) (drop (nat a) xs)"
    using assms by (simp add: map_nth_upt_take_drop)
  finally show ?thesis .
qed

lemma set_range_py: "set (range_py a b) = {a..<b}"
  by (auto simp: range_py_def)

lemma copy_pages_in_range:
  assumes "\<not> closed src" "\<forall>i\<in>set idxs. 0 \<le> i \<and> i < int (length (pages src))"
  shows "copy_pages lib new src idxs = Inr (new @ map (\<lambda>i. pages src ! nat i) idxs)"
  using assms by (induction idxs arbitrary: new) (simp_all add: insert_pdf_def)


lemma range_py_shift: "map (\<lambda>i. i + 1) (range_py a b) = range_py (a + 1) (b + 1)"
proof (induction "nat (b - a)" arbitrary: a)
  case 0
  then show ?case by (simp add: range_py_def)
next
  case (Suc k)
  then have ab: "a < b" by linarith
  have k: "k = nat (b - (a + 1))" using Suc.hyps(2) by linarith
  have "range_py a b = a # range_py (a + 1) b"
    using ab by (simp add: range_py_def upto_rec1)
  moreover have "range_py (a + 1) (b + 1) = (a + 1) # range_py (a + 1 + 1) (b + 1)"
    using ab by (simp add: range_py_def upto_rec1)
  ultimately show ?case using Suc.hyps(1)[OF k] by simp
qed

lemma moved_forward_shape:
  assumes "length A = S" "length B = T - S" "S < T"
  shows "remove_reinsert (A @ [x] @ B @ C) S T = A @ B @ [x] @ C"
  using assms by (simp add: remove_reinsert_def remove_at_def insert_at_def nth_append)

lemma moved_backward_shape:
  assumes "length A = T" "length B = S - T" "T \<le> S"
  shows "remove_reinsert (A @ B @ [x] @ C) S T = A @ [x] @ B @ C"
  using assms by (simp add: remove_reinsert_def remove_at_def insert_at_def nth_append)

lemma split_forward:
  assumes "S < T" "T < length xs"
  shows "xs = take S xs @ [xs ! S] @ take (T - S) (drop (Suc S) xs) @ drop (Suc T) xs"
proof -
  have "xs = take S xs @ [xs ! S] @ drop (Suc S) xs"
    using assms by (simp add: id_take_nth_drop [symmetric])
  moreover have "drop (Suc S) xs = take (T - S) (drop (Suc S) xs) @ drop (T - S) (drop (Suc S) xs)"
    by (rule append_take_drop_id [symmetric])
  moreover have "drop (T - S) (drop (Suc S) xs) = drop (Suc T) xs"
    using assms by simp
  ultimately show ?thesis by metis
qed

lemma split_backward:
  assumes "T \<le> S" "S < length xs"
  shows "xs = take T xs @ take (S - T) (drop T xs) @ [xs ! S] @ drop (Suc S) xs"
proof -
  have "xs = take S xs @ [xs ! S] @ drop (Suc S) xs"
    using assms by (simp add: id_take_nth_drop [symmetric])
  moreover have "take S xs = take T xs @ take (S - T) (drop T xs)"
    using assms by (metis add_diff_inverse_nat not_less take_add leD)
  ultimately show ?thesis by (metis append.assoc)
qed

lemma remove_reinsert_forward:
  assumes "S < T" "T < length xs"
  shows "remove_reinsert xs S T =
           take S xs @ take (T - S) (drop (Suc S) xs) @ [xs ! S] @ drop (Suc T) xs"
proof -
  let ?A = "take S xs" and ?B = "take (T - S) (drop (Suc S) xs)" and ?C = "drop (Suc T) xs"
  have "length ?A = S" "length ?B = T - S" using assms by auto
  from moved_forward_shape [OF this assms(1), of "xs ! S" ?C]
  show ?thesis using split_forward [OF assms] by simp
qed

lemma remove_reinsert_backward:
  assumes "T \<le> S" "S < length xs"
  shows "remove_reinsert xs S T =
           take T xs @ [xs ! S] @ take (S - T) (drop T xs) @ drop (Suc S) xs"
proof -
  let ?A = "take T xs" and ?B = "take (S - T) (drop T xs)" and ?C = "drop (Suc S) xs"
  have "length ?A = T" "length ?B = S - T" using assms by auto
  from moved_backward_shape [OF this assms(1), of "xs ! S" ?C]
  show ?thesis using split_backward [OF assms] by simp
qed

lemma remove_reinsert_inverse:
  assumes "S < length xs" "T < length xs"
  shows "remove_reinsert (remove_reinsert xs S T) T S = xs"
proof (cases "S < T")
  case True
  let ?A = "take S xs" and ?B = "take (T - S) (drop (Suc S) xs)" and ?C = "drop (Suc T) xs"
  have l: "length ?A = S" "length ?B = T - S" using assms True by auto
  have "remove_reinsert (?A @ ?B @ [xs ! S] @ ?C) T S = ?A @ [xs ! S] @ ?B @ ?C"
    using moved_backward_shape [of ?A S ?B T "xs ! S" ?C] l True by simp
  then show ?thesis
    using remove_reinsert_forward [OF True assms(2)] split_forward [OF True assms(2)] by simp
next
  case False
  then have TS: "T \<le> S" by simp
  show ?thesis
  proof (cases "T = S")
    case True
    then show ?thesis
      using assms remove_reinsert_backward [of S S xs]
      by (simp add: id_take_nth_drop [symmetric])
  next
    case F: False
    then have lt: "T < S" using TS by simp
    let ?A = "take T xs" and ?B = "take (S - T) (drop T xs)" and ?C = "drop (Suc S) xs"
    have l: "length ?A = T" "length ?B = S - T" using assms lt by auto
    have "remove_reinsert (?A @ [xs ! S] @ ?B @ ?C) T S = ?A @ ?B @ [xs ! S] @ ?C"
      using moved_forward_shape [of ?A T ?B S "xs ! S" ?C] l lt by simp
    then show ?thesis
      using remove_reinsert_backward [OF TS assms(1)] split_backward [OF TS assms(1)] by simp
  qed
qed

lemma mset_remove_reinsert:
  assumes "S < length xs" "T < length xs"
  shows "mset (remove_reinsert xs S T) = mset xs"
proof (cases "S < T")
  case True
  show ?thesis
    by (subst (2) split_forward [OF True assms(2)])
       (simp add: remove_reinsert_forward [OF True assms(2)])
next
  case False
  then have TS: "T \<le> S" by simp
  show ?thesis
    by (subst (2) split_backward [OF TS assms(1)])
       (simp add: remove_reinsert_backward [OF TS assms(1)])
qed

lemma length_remove_reinsert:
  assumes "S < length xs" "T < length xs"
  shows "length (remove_reinsert xs S T) = length xs"
  using mset_remove_reinsert [OF assms] by (metis size_mset)

lemma reorder_pages_forward:
  assumes "\<not> closed pdf" "0 \<le> source" "source < target" "target < int (length (pages pdf))"
  shows "reorder_pages lib pdf source target =
           Inr (take (nat source) (pages pdf)
                @ take (nat target - nat source) (drop (Suc (nat source)) (pages pdf))
                @ [pages pdf ! nat source]
                @ drop (Suc (nat target)) (pages pdf))"
proof -
  let ?xs = "pages pdf"
  let ?f = "\<lambda>i. ?xs ! nat i"
  have r1: "\<forall>i\<in>set (range_py 0 source). 0 \<le> i \<and> i < int (length ?xs)"
    using assms by (auto simp: set_range_py)
  have r2: "\<forall>i\<in>set (range_py (source + 1) (target + 1)). 0 \<le> i \<and> i < int (length ?xs)"
    using assms by (auto simp: set_range_py)
  have r3: "\<forall>i\<in>set (range_py (target + 1) (int (length ?xs))). 0 \<le> i \<and> i < int (length ?xs)"
    using assms by (auto simp: set_range_py)
  have m1: "map ?f (range_py 0 source) = take (nat source) ?xs"
    using map_nth_range_py [of 0 source ?xs] assms by simp
  have m2: "map ?f (range_py (source + 1) (target + 1))
              = take (nat target - nat source) (drop (Suc (nat source)) ?xs)"
  proof -
    have "nat (target + 1) - nat (source + 1) = nat target - nat source"
      using assms by linarith
    moreover have "nat (source + 1) = Suc (nat source)" using assms by linarith
    ultimately show ?thesis
      using map_nth_range_py [of "source + 1" "target + 1" ?xs] assms by simp
  qed
  have m3: "map ?f (range_py (target + 1) (int (length ?xs))) = drop (Suc (nat target)) ?xs"
  proof -
    have "nat (target + 1) = Suc (nat target)" using assms by linarith
    then show ?thesis
      using map_nth_range_py [of "target + 1" "int (length ?xs)" ?xs] assms by simp
  qed
  have ins: "\<And>new. insert_pdf lib new pdf source = Inr (new @ [?xs ! nat source])"
    using assms by (simp add: insert_pdf_def)
  show ?thesis
    using assms(1,3)
    by (simp add: reorder_pages_def range_py_shift copy_pages_in_range [OF assms(1) r1]
        copy_pages_in_range [OF assms(1) r2] copy_pages_in_range [OF assms(1) r3]
        ins doc_len_def m1 m2 m3)
qed

lemma reorder_pages_backward:
  assumes "\<not> closed pdf" "0 \<le> target" "target \<le> source" "source < int (length (pages pdf))"
  shows "reorder_pages lib pdf source target =
           Inr (take (nat target) (pages pdf)
                @ [pages pdf ! nat source]
                @ take (nat source - nat target) (drop (nat target) (pages pdf))
                @ drop (Suc (nat source)) (pages pdf))"
proof -
  let ?xs = "pages pdf"
  let ?f = "\<lambda>i. ?xs ! nat i"
  have r1: "\<forall>i\<in>set (range_py 0 target). 0 \<le> i \<and> i < int (length ?xs)"
    using assms by (auto simp: set_range_py)
  have r2: "\<forall>i\<in>set (range_py target source). 0 \<le> i \<and> i < int (length ?xs)"
    using assms by (auto simp: set_range_py)
  have r3: "\<forall>i\<in>set (range_py (source + 1) (int (length ?xs))). 0 \<le> i \<and> i < int (length ?xs)"
    using assms by (auto simp: set_range_py)
  have m1: "map ?f (range_py 0 target) = take (nat target) ?xs"
    using map_nth_range_py [of 0 target ?xs] assms by simp
  have m2: "map ?f (range_py target source)
              = take (nat source - nat target) (drop (nat target) ?xs)"
    using map_nth_range_py [of target source ?xs] assms by simp
  have m3: "map ?f (range_py (source + 1) (int (length ?xs))) = drop (Suc (nat source)) ?xs"
  proof -
    have "nat (source + 1) = Suc (nat source)" using assms by linarith
    then show ?thesis
      using map_nth_range_py [of "source + 1" "int (length ?xs)" ?xs] assms by simp
  qed
  have ins: "\<And>new. insert_pdf lib new pdf source = Inr (new @ [?xs ! nat source])"
    using assms by (simp add: insert_pdf_def)
  show ?thesis
    using assms(1,3)
    by (simp add: reorder_pages_def copy_pages_in_range [OF assms(1) r1]
        copy_pages_in_range [OF assms(1) r2] copy_pages_in_range [OF assms(1) r3]
        ins doc_len_def m1 m2 m3)
qed

lemma reorder_pages_in_range:
  assumes "\<not> closed pdf"
    and "0 \<le> source" "source < int (length (pages pdf))"
    and "0 \<le> target" "target < int (length (pages pdf))"
  shows "reorder_pages lib pdf source target =
           Inr (remove_reinsert (pages pdf) (nat source) (nat target))"
proof (cases "source < target")
  case True
  have "nat source < nat target" "nat target < length (pages pdf)"
    using True assms by linarith+
  from remove_reinsert_forward [OF this]
  show ?thesis using reorder_pages_forward [OF assms(1,2) True assms(5)] by simp
next
  case False
  then have ts: "target \<le> source" by simp
  have "nat target \<le> nat source" "nat source < length (pages pdf)"
    using ts assms by linarith+
  from remove_reinsert_backward [OF this]
  show ?thesis using reorder_pages_backward [OF assms(1,4) ts assms(3)] by simp
qed

subsection \<open>Rebuilding the document\<close>

lemma temp_path_neq: "p @ ''.temp'' \<noteq> p"
proof
  assume "p @ ''.temp'' = p"
  then have "length (p @ ''.temp'') = length p" by simp
  then show False by simp
qed

lemma rebuild_and_replace_keeps:
  assumes "rebuild_and_replace lib s a b = (e, s')"
  shows "move_history s' = move_history s \<and> history_index s' = history_index s
         \<and> dialogs s' = dialogs s \<and> current_page s' = current_page s"
  using assms
  by (auto simp: rebuild_and_replace_def Let_def
           split: option.splits sum.splits if_splits)

lemma rebuild_and_replace_success:
  assumes "rebuild_and_replace lib s a b = (None, s')" "current_pdf s = Some pdf"
  shows "\<exists>new. reorder_pages lib pdf a b = Inr new
           \<and> current_pdf s' = Some \<lparr>name = name pdf, pages = new, is_pdf = True, closed = False\<rparr>"
  using assms temp_path_neq [of "name pdf"]
  by (auto simp: rebuild_and_replace_def Let_def fitz_open_def
           split: option.splits sum.splits if_splits)

lemma rebuild_and_replace_ok:
  assumes "current_pdf s = Some pdf" "reorder_pages lib pdf a b = Inr new"
    and "save_ok lib (name pdf @ ''.temp'')" "replace_ok lib" "open_ok lib (name pdf)"
  shows "\<exists>s'. rebuild_and_replace lib s a b = (None, s')
           \<and> current_pdf s' = Some \<lparr>name = name pdf, pages = new, is_pdf = True, closed = False\<rparr>"
  using assms temp_path_neq [of "name pdf"]
  by (auto simp: rebuild_and_replace_def Let_def fitz_open_def)

lemma copy_pages_closed:
  "closed src \<Longrightarrow> copy_pages lib new src idxs =
     (if idxs = [] then Inr new else Inl (ValueError ''document closed''))"
  by (cases idxs) (simp_all add: insert_pdf_def)

lemma reorder_pages_closed:
  "closed pdf \<Longrightarrow> reorder_pages lib pdf a b = Inl (ValueError ''document closed'')"
  by (simp add: reorder_pages_def copy_pages_closed insert_pdf_def)

lemma rebuild_and_replace_length:
  assumes "rebuild_and_replace lib s a b = (e, s')" "current_pdf s = Some pdf"
    and "0 \<le> a" "a < int (length (pages pdf))" "0 \<le> b" "b < int (length (pages pdf))"
  shows "\<exists>pdf'. current_pdf s' = Some pdf' \<and> length (pages pdf') = length (pages pdf)"
proof (cases "closed pdf")
  case True
  then have "reorder_pages lib pdf a b = Inl (ValueError ''document closed'')"
    by (rule reorder_pages_closed)
  then show ?thesis using assms by (auto simp: rebuild_and_replace_def)
next
  case False
  have len: "length (remove_reinsert (pages pdf) (nat a) (nat b)) = length (pages pdf)"
    using assms by (intro length_remove_reinsert) linarith+
  show ?thesis
    using assms temp_path_neq [of "name pdf"] len
      reorder_pages_in_range [OF False assms(3-6), of lib]
    by (auto simp: rebuild_and_replace_def Let_def fitz_open_def
             split: option.splits sum.splits if_splits)
qed

lemma moved_forward_nth:
  fixes xs :: "'a list"
  assumes "S < T" "T < length xs"
  defines "new \<equiv> take S xs @ take (T - S) (drop (Suc S) xs) @ [xs ! S] @ drop (Suc T) xs"
  shows "i < S \<Longrightarrow> new ! i = xs ! i"
    and "S \<le> i \<Longrightarrow> i < T \<Longrightarrow> new ! i = xs ! Suc i"
    and "new ! T = xs ! S"
    and "T < i \<Longrightarrow> i < length xs \<Longrightarrow> new ! i = xs ! i"
  using assms by (auto simp: nth_append min_def)

lemma moved_backward_nth:
  fixes xs :: "'a list"
  assumes "T < S" "S < length xs"
  defines "new \<equiv> take T xs @ [xs ! S] @ take (S - T) (drop T xs) @ drop (Suc S) xs"
  shows "i < T \<Longrightarrow> new ! i = xs ! i"
    and "new ! T = xs ! S"
    and "T < i \<Longrightarrow> i \<le> S \<Longrightarrow> new ! i = xs ! (i - 1)"
    and "S < i \<Longrightarrow> i < length xs \<Longrightarrow> new ! i = xs ! i"
  using assms by (auto simp: nth_append min_def nth_Cons')

subsection \<open>The history\<close>

lemma py_index_in_set: "py_index xs i = Inr x \<Longrightarrow> x \<in> set xs"
  by (auto simp: py_index_def split: if_splits)

lemma set_py_slice_to: "set (py_slice_to xs k) \<subseteq> set xs"
  by (auto simp: py_slice_to_def dest: in_set_takeD)

lemma show_dialog_fields [simp]:
  "current_pdf (show_dialog d s) = current_pdf s"
  "current_page (show_dialog d s) = current_page s"
  "move_history (show_dialog d s) = move_history s"
  "history_index (show_dialog d s) = history_index s"
  "files (show_dialog d s) = files s"
  "dialogs (show_dialog d s) = dialogs s @ [d]"
  by (simp_all add: show_dialog_def)

lemma add_to_move_history_fields [simp]:
  "current_pdf (add_to_move_history s a b) = current_pdf s"
  "current_page (add_to_move_history s a b) = current_page s"
  "files (add_to_move_history s a b) = files s"
  "dialogs (add_to_move_history s a b) = dialogs s"
  by (simp_all add: add_to_move_history_def Let_def)

lemma add_to_move_history_records:
  "- 1 \<le> history_index s \<Longrightarrow>
   move_history (add_to_move_history s a b)
     = take (nat (history_index s + 1)) (move_history s) @ [(a, b)]"
  by (auto simp: add_to_move_history_def Let_def py_slice_to_def)

lemma add_to_move_history_cursor:
  "history_index (add_to_move_history s a b)
     = int (length (move_history (add_to_move_history s a b))) - 1"
  by (simp add: add_to_move_history_def Let_def)

lemma add_to_move_history_set:
  "set (move_history (add_to_move_history s a b)) \<subseteq> insert (a, b) (set (move_history s))"
  using set_py_slice_to [of "move_history s" "history_index s + 1"]
  by (auto simp: add_to_move_history_def Let_def)

lemma parse_move_in_range:
  assumes "parse_move pdf text0 = Inr (a, b)"
  shows "\<not> closed pdf \<and> 0 \<le> a \<and> a < int (length (pages pdf))
         \<and> 0 \<le> b \<and> b < int (length (pages pdf))"
  using assms
  by (auto simp: parse_move_def Let_def and_then_def doc_len_def
           split: if_splits sum.splits)

lemma PDFApp_move_page_keeps:
  assumes "PDFApp_move_page lib s a b = (e, s')"
  shows "move_history s' = move_history s \<and> history_index s' = history_index s
         \<and> dialogs s' = dialogs s \<and> current_page s' = current_page s"
proof -
  obtain e0 where "rebuild_and_replace lib s (a - 1) (b - 1) = (e0, s')"
    using assms by (auto simp: PDFApp_move_page_def split: prod.splits option.splits)
  then show ?thesis by (rule rebuild_and_replace_keeps)
qed

lemma truthy_open:
  "\<not> closed pdf \<Longrightarrow> truthy (Some pdf) = Inr (pages pdf \<noteq> [])"
  by (simp add: truthy_def doc_len_def)

lemma history_in_range_show_dialog [simp]:
  "history_in_range (show_dialog d s) = history_in_range s"
  by (simp add: history_in_range_def split: option.splits)

lemma history_in_range_rebuild:
  assumes "history_in_range s" "current_pdf s = Some pdf"
    and "0 \<le> a" "a < int (length (pages pdf))" "0 \<le> b" "b < int (length (pages pdf))"
    and "rebuild_and_replace lib s a b = (e, s')"
  shows "history_in_range s'"
proof -
  from rebuild_and_replace_length [OF assms(7,2-6)]
  obtain pdf' where p: "current_pdf s' = Some pdf'" "length (pages pdf') = length (pages pdf)"
    by blast
  moreover have "move_history s' = move_history s"
    using rebuild_and_replace_keeps [OF assms(7)] by simp
  ultimately show ?thesis using assms(1,2) by (simp add: history_in_range_def)
qed

lemma history_in_range_entry:
  assumes "history_in_range s" "current_pdf s = Some pdf" "(a, b) \<in> set (move_history s)"
  shows "0 \<le> a \<and> a < int (length (pages pdf)) \<and> 0 \<le> b \<and> b < int (length (pages pdf))"
  using assms by (auto simp: history_in_range_def list_all_iff)

lemma history_in_range_add:
  assumes "history_in_range s" "current_pdf s = Some pdf"
    and "0 \<le> a" "a < int (length (pages pdf))" "0 \<le> b" "b < int (length (pages pdf))"
  shows "history_in_range (add_to_move_history s a b)"
  using assms add_to_move_history_set [of s a b]
  by (auto simp: history_in_range_def list_all_iff)

lemma history_in_range_index:
  "history_in_range (s\<lparr>history_index := k\<rparr>) = history_in_range s"
  by (simp add: history_in_range_def split: option.splits)

lemma history_in_range_PDFApp_move_page:
  assumes "history_in_range s" "current_pdf s = Some pdf"
    and "0 \<le> a" "a < int (length (pages pdf))" "0 \<le> b" "b < int (length (pages pdf))"
    and "PDFApp_move_page lib s (a + 1) (b + 1) = (e, s')"
  shows "history_in_range s'"
proof -
  obtain e0 where "rebuild_and_replace lib s a b = (e0, s')"
    using assms(7) by (auto simp: PDFApp_move_page_def split: prod.splits option.splits)
  from history_in_range_rebuild [OF assms(1-6) this] show ?thesis .
qed

lemma history_in_range_undo:
  assumes "history_in_range s"
  shows "history_in_range (snd (undo_page lib s))"
proof (cases "current_pdf s")
  case None
  then show ?thesis using assms by (simp add: undo_page_def truthy_def)
next
  case (Some pdf)
  show ?thesis
  proof (cases "py_index (move_history s) (history_index s)")
    case (Inl e)
    then show ?thesis using assms by (auto simp: undo_page_def split: sum.splits)
  next
    case (Inr p)
    obtain a b where p: "p = (a, b)" by (cases p)
    have "(a, b) \<in> set (move_history s)" using Inr p py_index_in_set by metis
    from history_in_range_entry [OF assms Some this]
    have rng: "0 \<le> b" "b < int (length (pages pdf))" "0 \<le> a" "a < int (length (pages pdf))"
      by simp_all
    obtain e1 s1 where m: "PDFApp_move_page lib s (b + 1) (a + 1) = (e1, s1)"
      by (cases "PDFApp_move_page lib s (b + 1) (a + 1)")
    have "history_in_range s1"
      using history_in_range_PDFApp_move_page [OF assms Some rng m] .
    then show ?thesis using assms Inr p m
      by (auto simp: undo_page_def history_in_range_index split: sum.splits option.splits)
  qed
qed

lemma history_in_range_redo:
  assumes "history_in_range s"
  shows "history_in_range (snd (redo_page lib s))"
proof (cases "current_pdf s")
  case None
  then show ?thesis using assms by (simp add: redo_page_def truthy_def)
next
  case (Some pdf)
  let ?s1 = "s\<lparr>history_index := history_index s + 1\<rparr>"
  have h1: "history_in_range ?s1" using assms by (simp add: history_in_range_index)
  have c1: "current_pdf ?s1 = Some pdf" using Some by simp
  show ?thesis
  proof (cases "py_index (move_history s) (history_index s + 1)")
    case (Inl e)
    then show ?thesis using assms h1
      by (auto simp: redo_page_def Let_def split: sum.splits)
  next
    case (Inr p)
    obtain a b where p: "p = (a, b)" by (cases p)
    have "(a, b) \<in> set (move_history ?s1)" using Inr p py_index_in_set by fastforce
    from history_in_range_entry [OF h1 c1 this]
    have rng: "0 \<le> a" "a < int (length (pages pdf))" "0 \<le> b" "b < int (length (pages pdf))"
      by simp_all
    obtain e1 s2 where m: "PDFApp_move_page lib ?s1 (a + 1) (b + 1) = (e1, s2)"
      by (cases "PDFApp_move_page lib ?s1 (a + 1) (b + 1)")
    have "history_in_range s2"
      using history_in_range_PDFApp_move_page [OF h1 c1 rng m] .
    then show ?thesis using assms Inr p m
      by (auto simp: redo_page_def Let_def split: sum.splits option.splits)
  qed
qed

lemma history_in_range_move:
  assumes "history_in_range s"
  shows "history_in_range (snd (ThumbnailWidget_move_page lib s text0))"
proof (cases "current_pdf s")
  case None
  then show ?thesis using assms by (simp add: ThumbnailWidget_move_page_def truthy_def)
next
  case (Some pdf)
  show ?thesis
  proof (cases "parse_move pdf text0")
    case (Inl e)
    then show ?thesis using assms Some
      by (cases e) (auto simp: ThumbnailWidget_move_page_def split: sum.splits)
  next
    case (Inr p)
    obtain a b where p: "p = (a, b)" by (cases p)
    from parse_move_in_range [OF Inr [unfolded p]]
    have rng: "0 \<le> a" "a < int (length (pages pdf))" "0 \<le> b" "b < int (length (pages pdf))"
      by simp_all
    obtain e1 s1 where r: "rebuild_and_replace lib s a b = (e1, s1)"
      by (cases "rebuild_and_replace lib s a b")
    have h1: "history_in_range s1"
      using history_in_range_rebuild [OF assms Some rng r] .
    from rebuild_and_replace_length [OF r Some rng]
    obtain pdf' where p': "current_pdf s1 = Some pdf'" "length (pages pdf') = length (pages pdf)"
      by blast
    have "history_in_range (add_to_move_history s1 a b)"
      using history_in_range_add [OF h1 p'(1)] rng p'(2) by simp
    then show ?thesis using assms Some Inr p r h1
      by (auto simp: ThumbnailWidget_move_page_def split: sum.splits option.splits)
  qed
qed

lemma add_to_move_history_last:
  "py_index (move_history (add_to_move_history s a b))
            (history_index (add_to_move_history s a b)) = Inr (a, b)
   \<and> 0 \<le> history_index (add_to_move_history s a b)"
  by (simp add: add_to_move_history_def Let_def py_index_def nth_append)

lemma history_invariant_iff:
  "history_invariant s \<longleftrightarrow>
     - 1 \<le> history_index s \<and> history_index s < int (length (move_history s))"
  by (auto simp: history_invariant_def cursor_on_record_def max_def)

lemma undo_page_history:
  "move_history (snd (undo_page lib s)) = move_history s
   \<and> (history_index (snd (undo_page lib s)) = history_index s
      \<or> 0 \<le> history_index s
        \<and> history_index (snd (undo_page lib s)) = history_index s - 1
        \<and> dialogs (snd (undo_page lib s)) = dialogs s)"
proof (cases "py_index (move_history s) (history_index s)")
  case (Inl e)
  then show ?thesis by (auto simp: undo_page_def split: sum.splits)
next
  case (Inr p)
  obtain a b where p: "p = (a, b)" by (cases p)
  obtain e1 s1 where m: "PDFApp_move_page lib s (b + 1) (a + 1) = (e1, s1)"
    by (cases "PDFApp_move_page lib s (b + 1) (a + 1)")
  from PDFApp_move_page_keeps [OF m] Inr p m
  show ?thesis by (auto simp: undo_page_def split: sum.splits option.splits)
qed

lemma redo_page_history:
  "move_history (snd (redo_page lib s)) = move_history s
   \<and> (history_index (snd (redo_page lib s)) = history_index s
        \<and> dialogs (snd (redo_page lib s)) = dialogs s
      \<or> history_index s < int (length (move_history s)) - 1
        \<and> history_index (snd (redo_page lib s)) = history_index s + 1)"
proof (cases "py_index (move_history s) (history_index s + 1)")
  case (Inl e)
  then show ?thesis by (auto simp: redo_page_def Let_def split: sum.splits)
next
  case (Inr p)
  obtain a b where p: "p = (a, b)" by (cases p)
  let ?s1 = "s\<lparr>history_index := history_index s + 1\<rparr>"
  obtain e1 s2 where m: "PDFApp_move_page lib ?s1 (a + 1) (b + 1) = (e1, s2)"
    by (cases "PDFApp_move_page lib ?s1 (a + 1) (b + 1)")
  from PDFApp_move_page_keeps [OF m] Inr p m
  show ?thesis by (auto simp: redo_page_def Let_def split: sum.splits option.splits)
qed

lemma close_pdf_history:
  "move_history (close_pdf s) = move_history s \<and> history_index (close_pdf s) = history_index s"
  by (auto simp: close_pdf_def split: sum.splits)

lemma load_and_display_pdf_history:
  "move_history (snd (load_and_display_pdf lib s fname)) = move_history s
   \<and> history_index (snd (load_and_display_pdf lib s fname)) = history_index s"
  by (auto simp: load_and_display_pdf_def Let_def close_pdf_history split: sum.splits)

text \<open>What the thumbnail move does to the history, case by case.\<close>

lemma move_page_cases:
  "(move_history (snd (ThumbnailWidget_move_page lib s text0)) = move_history s
      \<and> history_index (snd (ThumbnailWidget_move_page lib s text0)) = history_index s)
   \<or> (\<exists>pdf source target s1.
         current_pdf s = Some pdf \<and> parse_move pdf text0 = Inr (source, target)
         \<and> source \<noteq> target
         \<and> rebuild_and_replace lib s source target = (None, s1)
         \<and> ThumbnailWidget_move_page lib s text0
             = (None, add_to_move_history s1 source target))"
proof (cases "current_pdf s")
  case None
  then show ?thesis by (simp add: ThumbnailWidget_move_page_def truthy_def)
next
  case (Some pdf)
  show ?thesis
  proof (cases "parse_move pdf text0")
    case (Inl e)
    then show ?thesis using Some
      by (cases e) (auto simp: ThumbnailWidget_move_page_def split: sum.splits)
  next
    case (Inr p)
    obtain a b where p: "p = (a, b)" by (cases p)
    obtain e1 s1 where r: "rebuild_and_replace lib s a b = (e1, s1)"
      by (cases "rebuild_and_replace lib s a b")
    from rebuild_and_replace_keeps [OF r] Some Inr p r
    show ?thesis
      by (auto simp: ThumbnailWidget_move_page_def split: sum.splits option.splits)
  qed
qed

lemma history_invariant_add: "history_invariant (add_to_move_history s a b)"
  by (simp add: history_invariant_iff add_to_move_history_def Let_def)


lemma split_pdf_history:
  "move_history (snd (split_pdf lib s text0 output_dir)) = move_history s
   \<and> history_index (snd (split_pdf lib s text0 output_dir)) = history_index s"
  by (auto simp: split_pdf_def Let_def
           split: sum.splits option.splits error.splits prod.splits)

lemma undo_page_error_keeps_history:
  assumes "dialogs (snd (undo_page lib s)) \<noteq> dialogs s"
  shows "move_history (snd (undo_page lib s)) = move_history s
         \<and> history_index (snd (undo_page lib s)) = history_index s"
  using assms undo_page_history [of lib s] by blast

lemma move_page_error_keeps_history:
  assumes "dialogs (snd (ThumbnailWidget_move_page lib s text0)) \<noteq> dialogs s"
  shows "move_history (snd (ThumbnailWidget_move_page lib s text0)) = move_history s
         \<and> history_index (snd (ThumbnailWidget_move_page lib s text0)) = history_index s"
proof -
  from move_page_cases [of lib s text0] show ?thesis
  proof (elim disjE exE conjE)
    fix pdf source target s1
    assume r: "rebuild_and_replace lib s source target = (None, s1)"
      and m: "ThumbnailWidget_move_page lib s text0
                = (None, add_to_move_history s1 source target)"
    have "dialogs (snd (ThumbnailWidget_move_page lib s text0)) = dialogs s"
      using rebuild_and_replace_keeps [OF r] m by simp
    then show ?thesis using assms by simp
  qed simp
qed

subsection \<open>Parsing the page ranges\<close>

lemma split_on_nonempty: "split_on c s \<noteq> []"
  by (induction s) (auto split: list.splits)

lemma split_on_absent: "c \<notin> set s \<Longrightarrow> split_on c s = [s]"
  by (induction s) auto

lemma split_on_present: "c \<in> set s \<Longrightarrow> 2 \<le> length (split_on c s)"
proof (induction s)
  case Nil
  then show ?case by simp
next
  case (Cons x xs)
  show ?case
  proof (cases "x = c")
    case True
    then show ?thesis using split_on_nonempty [of c xs]
      by (cases "split_on c xs") auto
  next
    case False
    then have "c \<in> set xs" using Cons.prems by simp
    from Cons.IH [OF this] False show ?thesis
      by (cases "split_on c xs") auto
  qed
qed

lemma range_py_item: "set (range_py (a - 1) b) = {a - 1..b - 1}"
  by (auto simp: range_py_def)

lemma unpack2_long: "3 \<le> length parts \<Longrightarrow> \<exists>e. unpack2 parts = Inl e"
proof -
  assume "3 \<le> length parts"
  then obtain x y z rest where "parts = x # y # z # rest"
    by (cases parts; cases "tl parts"; cases "tl (tl parts)") auto
  then show ?thesis by (auto simp: and_then_def split: sum.splits)
qed

text \<open>The loop body of the parser against the reading of an item.\<close>

lemma add_segment_read_item:
  "(case read_item segment of
      None \<Rightarrow> \<exists>e. add_segment page_set segment = Inl e
    | Some it \<Rightarrow> add_segment page_set segment = Inr (page_set \<union> item_pages it))"
proof (cases "CHR ''-'' \<in> set (py_strip segment)")
  case False
  then have s: "split_on CHR ''-'' (py_strip segment) = [py_strip segment]"
    by (rule split_on_absent)
  show ?thesis using False s
    by (cases "py_int (py_strip segment)")
       (simp_all add: read_item_def add_segment_def Let_def)
next
  case True
  from split_on_present [OF True]
  have l: "2 \<le> length (split_on CHR ''-'' (py_strip segment))" .
  show ?thesis
  proof (cases "length (split_on CHR ''-'' (py_strip segment)) = 2")
    case t: True
    then obtain x y where xy: "split_on CHR ''-'' (py_strip segment) = [x, y]"
      by (cases "split_on CHR ''-'' (py_strip segment)";
          cases "tl (split_on CHR ''-'' (py_strip segment))") auto
    show ?thesis using True xy
      by (cases "py_int x"; cases "py_int y")
         (simp_all add: read_item_def add_segment_def Let_def range_py_item)
  next
    case False
    then have l3: "3 \<le> length (split_on CHR ''-'' (py_strip segment))" using l by simp
    then obtain x y z rest where
      xs: "split_on CHR ''-'' (py_strip segment) = x # y # z # rest"
      by (cases "split_on CHR ''-'' (py_strip segment)";
          cases "tl (split_on CHR ''-'' (py_strip segment))";
          cases "tl (tl (split_on CHR ''-'' (py_strip segment)))") auto
    from unpack2_long [OF l3] obtain e where
      "unpack2 (split_on CHR ''-'' (py_strip segment)) = Inl e" by blast
    then show ?thesis using True xs
      by (simp add: read_item_def add_segment_def Let_def)
  qed
qed

lemma add_segment_Some:
  "read_item segment = Some it \<Longrightarrow>
   add_segment page_set segment = Inr (page_set \<union> item_pages it)"
  using add_segment_read_item [of page_set segment] by simp

lemma add_segment_Inr:
  "add_segment page_set segment = Inr q \<Longrightarrow>
   \<exists>it. read_item segment = Some it \<and> q = page_set \<union> item_pages it"
  using add_segment_read_item [of page_set segment]
  by (cases "read_item segment") auto

lemma finite_item_pages: "finite (item_pages it)"
  by (cases it) simp_all

lemma add_segments_all_read:
  assumes "list_all (\<lambda>r. r \<noteq> None) (map read_item segments)"
  shows "add_segments page_set segments
           = Inr (page_set \<union> (\<Union>r\<in>set (map read_item segments).
                                    case r of None \<Rightarrow> {} | Some it \<Rightarrow> item_pages it))"
  using assms
proof (induction segments arbitrary: page_set)
  case Nil
  then show ?case by simp
next
  case (Cons seg segs)
  then obtain it where it: "read_item seg = Some it" by auto
  have "list_all (\<lambda>r. r \<noteq> None) (map read_item segs)" using Cons.prems by simp
  from Cons.IH [OF this, of "page_set \<union> item_pages it"] it
  show ?case by (simp add: add_segment_Some Un_assoc)
qed

lemma add_segments_Inr_read:
  assumes "add_segments page_set segments = Inr q"
  shows "list_all (\<lambda>r. r \<noteq> None) (map read_item segments)"
  using assms
proof (induction segments arbitrary: page_set)
  case Nil
  then show ?case by simp
next
  case (Cons seg segs)
  then obtain q1 where a: "add_segment page_set seg = Inr q1"
    and b: "add_segments q1 segs = Inr q"
    by (cases "add_segment page_set seg") simp_all
  from add_segment_Inr [OF a] Cons.IH [OF b] show ?case by auto
qed

lemma parse_group_iff: "parse_group part = Inr g \<longleftrightarrow> group_pages part = Some g"
proof
  assume p: "parse_group part = Inr g"
  then obtain q where a: "add_segments {} (split_on CHR '','' part) = Inr q"
    and g: "g = sorted_list_of_set q"
    by (cases "add_segments {} (split_on CHR '','' part)") (auto simp: parse_group_def)
  from add_segments_Inr_read [OF a]
  have r: "list_all (\<lambda>r. r \<noteq> None) (map read_item (split_on CHR '','' part))" .
  from add_segments_all_read [OF r, of "{}"] a g r
  show "group_pages part = Some g" by (simp add: group_pages_def Let_def)
next
  assume "group_pages part = Some g"
  then have r: "list_all (\<lambda>r. r \<noteq> None) (map read_item (split_on CHR '','' part))"
    and g: "g = sorted_list_of_set (\<Union>r\<in>set (map read_item (split_on CHR '','' part)).
                                        case r of None \<Rightarrow> {} | Some it \<Rightarrow> item_pages it)"
    by (auto simp: group_pages_def Let_def split: if_splits)
  from add_segments_all_read [OF r, of "{}"] g
  show "parse_group part = Inr g" by (simp add: parse_group_def)
qed

lemma parse_groups_iff:
  "parse_groups parts = Inr gs \<longleftrightarrow> map group_pages parts = map Some gs"
proof (induction parts arbitrary: gs)
  case Nil
  then show ?case by auto
next
  case (Cons part parts)
  show ?case
  proof
    assume a: "parse_groups (part # parts) = Inr gs"
    then obtain g where g: "parse_group part = Inr g"
      by (cases "parse_group part") simp_all
    with a obtain gs' where gs': "parse_groups parts = Inr gs'" and e: "gs = g # gs'"
      by (cases "parse_groups parts") auto
    from g parse_group_iff have "group_pages part = Some g" by simp
    moreover from gs' Cons.IH have "map group_pages parts = map Some gs'" by simp
    ultimately show "map group_pages (part # parts) = map Some gs" using e by simp
  next
    assume a: "map group_pages (part # parts) = map Some gs"
    then obtain g gs' where e: "gs = g # gs'" and g: "group_pages part = Some g"
      and r: "map group_pages parts = map Some gs'"
      by (cases gs) auto
    from g parse_group_iff have "parse_group part = Inr g" by simp
    moreover from r Cons.IH have "parse_groups parts = Inr gs'" by simp
    ultimately show "parse_groups (part # parts) = Inr gs" using e by simp
  qed
qed

lemma group_pages_set:
  assumes "group_pages part = Some g"
  shows "sorted_wrt (<) g
         \<and> set g = (\<Union>segment\<in>set (split_on CHR '','' part).
                      case read_item segment of None \<Rightarrow> {} | Some it \<Rightarrow> item_pages it)"
proof -
  let ?u = "\<Union>r\<in>set (map read_item (split_on CHR '','' part)).
              case r of None \<Rightarrow> {} | Some it \<Rightarrow> item_pages it"
  have g: "g = sorted_list_of_set ?u"
    using assms by (auto simp: group_pages_def Let_def split: if_splits)
  have f: "finite ?u"
    by (rule finite_UN_I) (auto simp: finite_item_pages split: option.splits)
  have "sorted_wrt (<) g" using g by (simp add: strict_sorted_iff)
  moreover have "set g = ?u" using g f by simp
  ultimately show ?thesis by simp
qed

lemma group_pages_order:
  assumes "set (split_on CHR '','' part') = set (split_on CHR '','' part)"
  shows "group_pages part' = group_pages part"
  using assms by (simp add: group_pages_def Let_def list_all_iff)

lemma parse_page_groups_Inr:
  assumes "parse_page_groups pdf ranges_text = Inr gs"
  shows "parse_groups (split_on CHR '';'' ranges_text) = Inr gs"
  using assms
  by (auto simp: parse_page_groups_def and_then_def split: sum.splits if_splits)

lemma any_invalid_open:
  "\<not> closed pdf \<Longrightarrow>
   any_invalid pdf ps = Inr (\<exists>p\<in>set ps. p < 0 \<or> p \<ge> int (length (pages pdf)))"
  by (induction ps) (auto simp: doc_len_def)

lemma parse_group_empty: "\<exists>e. parse_group [] = Inl e"
  by (simp add: parse_group_def add_segment_def py_strip_def py_int_def Let_def)

lemma parse_groups_nonempty_text:
  assumes "parse_groups (split_on c ranges_text) = Inr gs"
  shows "ranges_text \<noteq> []"
proof
  assume "ranges_text = []"
  then have "parse_groups [[]] = Inr gs" using assms by simp
  moreover obtain e where "parse_group [] = Inl e" using parse_group_empty by blast
  ultimately show False by simp
qed

lemma split_pdf_files_changed:
  assumes "files (snd (split_pdf lib s text0 output_dir)) \<noteq> files s"
  shows "\<exists>pdf gs. current_pdf s = Some pdf \<and> truthy (Some pdf) = Inr True
                 \<and> parse_page_groups pdf (py_strip text0) = Inr gs"
  using assms
  by (auto simp: split_pdf_def Let_def
           split: sum.splits option.splits error.splits prod.splits if_splits)


lemma descending_range_read:
  "descending_range segment \<Longrightarrow> \<exists>a b. read_item segment = Some (Range a b) \<and> b < a"
  by (auto simp: descending_range_def split: option.splits item.splits)

lemma add_segments_descending:
  "list_all descending_range segments \<Longrightarrow> add_segments page_set segments = Inr page_set"
proof (induction segments)
  case Nil
  then show ?case by simp
next
  case (Cons seg segs)
  then obtain a b where "read_item seg = Some (Range a b)" "b < a"
    using descending_range_read by fastforce
  then have "add_segment page_set seg = Inr page_set"
    using add_segment_Some [of seg "Range a b" page_set] by simp
  then show ?case using Cons by simp
qed

lemma concat_all_empty: "concat (map (\<lambda>x. []) xs) = []"
  by (induction xs) simp_all

lemma parse_groups_descending:
  "\<forall>part\<in>set parts. list_all descending_range (split_on CHR '','' part) \<Longrightarrow>
   parse_groups parts = Inr (map (\<lambda>part. []) parts)"
  by (induction parts) (simp_all add: parse_group_def add_segments_descending)

section \<open>The reorder is a remove-and-reinsert\<close>

text \<open>
  Claim C1. For an open document and two page indices in range, different from each other,
  the reorder yields the page list obtained by removing the page at \<open>source\<close> and
  putting it back at \<open>target\<close>. For a forward move the pages before \<open>source\<close> stay,
  those from \<open>source + 1\<close> to \<open>target\<close> move one place to the front, the moved page
  lands at \<open>target\<close> and the pages after \<open>target\<close> stay; symmetrically for a backward
  move. Both entry points, \<^verbatim>\<open>PDFApp._move_page\<close> and \<^verbatim>\<open>ThumbnailWidget.move_page\<close>,
  leave that page list in the reopened document when they succeed.
\<close>

theorem reorder_is_remove_reinsert:
  assumes "\<not> closed pdf"
    and "0 \<le> source" "source < int (length (pages pdf))"
    and "0 \<le> target" "target < int (length (pages pdf))"
    and "source \<noteq> target"
  shows "\<exists>new. reorder_pages lib pdf source target = Inr new
           \<and> new = remove_reinsert (pages pdf) (nat source) (nat target)
           \<and> (source < target \<longrightarrow>
                (\<forall>i. i < nat source \<longrightarrow> new ! i = pages pdf ! i)
              \<and> (\<forall>i. nat source \<le> i \<and> i < nat target \<longrightarrow> new ! i = pages pdf ! Suc i)
              \<and> new ! nat target = pages pdf ! nat source
              \<and> (\<forall>i. nat target < i \<and> i < length (pages pdf) \<longrightarrow> new ! i = pages pdf ! i))
           \<and> (target < source \<longrightarrow>
                (\<forall>i. i < nat target \<longrightarrow> new ! i = pages pdf ! i)
              \<and> new ! nat target = pages pdf ! nat source
              \<and> (\<forall>i. nat target < i \<and> i \<le> nat source \<longrightarrow> new ! i = pages pdf ! (i - 1))
              \<and> (\<forall>i. nat source < i \<and> i < length (pages pdf) \<longrightarrow> new ! i = pages pdf ! i))
           \<and> (\<forall>s s'. current_pdf s = Some pdf
                 \<and> PDFApp_move_page lib s (source + 1) (target + 1) = (None, s')
                 \<longrightarrow> map_option pages (current_pdf s') = Some new)
           \<and> (\<forall>s s' text0. current_pdf s = Some pdf
                 \<and> parse_move pdf text0 = Inr (source, target)
                 \<and> ThumbnailWidget_move_page lib s text0 = (None, s')
                 \<and> dialogs s' = dialogs s
                 \<longrightarrow> map_option pages (current_pdf s') = Some new)"
proof -
  let ?xs = "pages pdf"
  let ?new = "remove_reinsert ?xs (nat source) (nat target)"
  have eq: "reorder_pages lib pdf source target = Inr ?new"
    using assms by (intro reorder_pages_in_range)
  have fwd: "source < target \<longrightarrow>
                (\<forall>i. i < nat source \<longrightarrow> ?new ! i = ?xs ! i)
              \<and> (\<forall>i. nat source \<le> i \<and> i < nat target \<longrightarrow> ?new ! i = ?xs ! Suc i)
              \<and> ?new ! nat target = ?xs ! nat source
              \<and> (\<forall>i. nat target < i \<and> i < length ?xs \<longrightarrow> ?new ! i = ?xs ! i)"
  proof
    assume lt: "source < target"
    have a: "nat source < nat target" "nat target < length ?xs" using lt assms by linarith+
    show "(\<forall>i. i < nat source \<longrightarrow> ?new ! i = ?xs ! i)
              \<and> (\<forall>i. nat source \<le> i \<and> i < nat target \<longrightarrow> ?new ! i = ?xs ! Suc i)
              \<and> ?new ! nat target = ?xs ! nat source
              \<and> (\<forall>i. nat target < i \<and> i < length ?xs \<longrightarrow> ?new ! i = ?xs ! i)"
      unfolding remove_reinsert_forward [OF a]
      using moved_forward_nth [OF a] by blast
  qed
  have bwd: "target < source \<longrightarrow>
                (\<forall>i. i < nat target \<longrightarrow> ?new ! i = ?xs ! i)
              \<and> ?new ! nat target = ?xs ! nat source
              \<and> (\<forall>i. nat target < i \<and> i \<le> nat source \<longrightarrow> ?new ! i = ?xs ! (i - 1))
              \<and> (\<forall>i. nat source < i \<and> i < length ?xs \<longrightarrow> ?new ! i = ?xs ! i)"
  proof
    assume lt: "target < source"
    have a: "nat target < nat source" "nat source < length ?xs" using lt assms by linarith+
    have a': "nat target \<le> nat source" using a(1) by (rule less_imp_le)
    show "(\<forall>i. i < nat target \<longrightarrow> ?new ! i = ?xs ! i)
              \<and> ?new ! nat target = ?xs ! nat source
              \<and> (\<forall>i. nat target < i \<and> i \<le> nat source \<longrightarrow> ?new ! i = ?xs ! (i - 1))
              \<and> (\<forall>i. nat source < i \<and> i < length ?xs \<longrightarrow> ?new ! i = ?xs ! i)"
      unfolding remove_reinsert_backward [OF a' a(2)]
      using moved_backward_nth [OF a] by blast
  qed
  have helper: "\<forall>s s'. current_pdf s = Some pdf
                 \<and> PDFApp_move_page lib s (source + 1) (target + 1) = (None, s')
                 \<longrightarrow> map_option pages (current_pdf s') = Some ?new"
  proof (intro allI impI, elim conjE)
    fix s s' :: "'a state"
    assume c: "current_pdf s = Some pdf"
      and m: "PDFApp_move_page lib s (source + 1) (target + 1) = (None, s')"
    from m have "rebuild_and_replace lib s source target = (None, s')"
      by (auto simp: PDFApp_move_page_def split: prod.splits option.splits)
    from rebuild_and_replace_success [OF this c] eq
    show "map_option pages (current_pdf s') = Some ?new" by auto
  qed
  have widget: "\<forall>s s' text0. current_pdf s = Some pdf
                 \<and> parse_move pdf text0 = Inr (source, target)
                 \<and> ThumbnailWidget_move_page lib s text0 = (None, s')
                 \<and> dialogs s' = dialogs s
                 \<longrightarrow> map_option pages (current_pdf s') = Some ?new"
  proof (intro allI impI, elim conjE)
    fix s s' :: "'a state" and text0
    assume c: "current_pdf s = Some pdf"
      and p: "parse_move pdf text0 = Inr (source, target)"
      and m: "ThumbnailWidget_move_page lib s text0 = (None, s')"
      and d: "dialogs s' = dialogs s"
    have ne: "pages pdf \<noteq> []" using assms by auto
    obtain e1 s1 where r: "rebuild_and_replace lib s source target = (e1, s1)"
      by (cases "rebuild_and_replace lib s source target")
    have k: "dialogs s1 = dialogs s" using rebuild_and_replace_keeps [OF r] by simp
    show "map_option pages (current_pdf s') = Some ?new"
    proof (cases e1)
      case None
      then have "s' = add_to_move_history s1 source target"
        using m c p r ne assms(1,6) by (simp add: ThumbnailWidget_move_page_def truthy_open)
      moreover from rebuild_and_replace_success [OF r [unfolded None] c] eq
      have "map_option pages (current_pdf s1) = Some ?new" by auto
      ultimately show ?thesis by simp
    next
      case (Some e)
      then have "s' = show_dialog (Critical (''Error moving pages: '' @ str_of e)) s1"
        using m c p r ne assms(1,6) by (simp add: ThumbnailWidget_move_page_def truthy_open)
      then show ?thesis using d k by simp
    qed
  qed
  show ?thesis using eq fwd bwd helper widget by blast
qed

text \<open>Page 2 of the five-page example moved to position 4.\<close>

theorem reorder_is_remove_reinsert_witness:
  "\<not> closed example_pdf \<and> (0::int) \<le> 1 \<and> 1 < int (length (pages example_pdf))
   \<and> (0::int) \<le> 3 \<and> 3 < int (length (pages example_pdf)) \<and> (1::int) \<noteq> 3
   \<and> reorder_pages example_lib example_pdf 1 3 = Inr [10, 12, 13, 11, 14]
   \<and> remove_reinsert (pages example_pdf) 1 3 = [10, 12, 13, 11, 14]
   \<and> current_pdf example_state = Some example_pdf
   \<and> fst (PDFApp_move_page example_lib example_state 2 4) = None
   \<and> map_option pages (current_pdf (snd (PDFApp_move_page example_lib example_state 2 4)))
       = Some [10, 12, 13, 11, 14]"
proof -
  have h: "\<not> closed example_pdf" "(0::int) \<le> 1" "1 < int (length (pages example_pdf))"
    "(0::int) \<le> 3" "3 < int (length (pages example_pdf))" "(1::int) \<noteq> 3"
    by (simp_all add: example_pdf_def)
  have c: "current_pdf example_state = Some example_pdf"
    by (simp add: example_state_def)
  have ok: "fst (PDFApp_move_page example_lib example_state 2 4) = None"
    by code_simp
  obtain s' where m: "PDFApp_move_page example_lib example_state (1 + 1) (3 + 1) = (None, s')"
    using ok by (cases "PDFApp_move_page example_lib example_state 2 4") simp
  have r: "remove_reinsert (pages example_pdf) (nat 1) (nat 3) = [10, 12, 13, 11, 14]"
    by (simp add: example_pdf_def remove_reinsert_def remove_at_def insert_at_def)
  from reorder_is_remove_reinsert [OF h, of example_lib]
  obtain new where n: "reorder_pages example_lib example_pdf 1 3 = Inr new"
    "new = remove_reinsert (pages example_pdf) (nat 1) (nat 3)"
    "\<forall>s s'. current_pdf s = Some example_pdf
        \<and> PDFApp_move_page example_lib s (1 + 1) (3 + 1) = (None, s')
        \<longrightarrow> map_option pages (current_pdf s') = Some new"
    by (elim exE conjE)
  from n(3) c m have "map_option pages (current_pdf s') = Some new" by blast
  with n(1,2) r
  have "reorder_pages example_lib example_pdf 1 3 = Inr [10, 12, 13, 11, 14]
        \<and> map_option pages (current_pdf s') = Some [10, 12, 13, 11, 14]"
    by simp
  then show ?thesis using h c ok m r by simp
qed

section \<open>A move followed by its inverse\<close>

text \<open>
  Claim C2. For an open document and two different page indices in range, the reorder from
  \<open>source\<close> to \<open>target\<close> followed by the reorder from \<open>target\<close> to \<open>source\<close>
  gives back the original page list. In a session where saving, replacing and reopening
  succeed, a move entered in the thumbnail panel records \<open>(source, target)\<close> at the
  cursor, and the undo that follows it succeeds without a message and leaves the document
  with the pages it had before the move.
\<close>

theorem reorder_then_inverse_restores:
  assumes "\<not> closed pdf"
    and "0 \<le> source" "source < int (length (pages pdf))"
    and "0 \<le> target" "target < int (length (pages pdf))"
    and "source \<noteq> target"
  shows "(\<exists>new. reorder_pages lib pdf source target = Inr new
            \<and> reorder_pages lib (pdf\<lparr>pages := new\<rparr>) target source = Inr (pages pdf))
         \<and> (\<forall>s text0. current_pdf s = Some pdf
               \<and> parse_move pdf text0 = Inr (source, target)
               \<and> save_ok lib (name pdf @ ''.temp'') \<and> replace_ok lib \<and> open_ok lib (name pdf)
               \<longrightarrow> (\<exists>s1 s2. ThumbnailWidget_move_page lib s text0 = (None, s1)
                      \<and> dialogs s1 = dialogs s
                      \<and> py_index (move_history s1) (history_index s1) = Inr (source, target)
                      \<and> undo_page lib s1 = (None, s2)
                      \<and> dialogs s2 = dialogs s
                      \<and> map_option pages (current_pdf s2) = Some (pages pdf)))"
proof -
  let ?xs = "pages pdf"
  let ?new = "remove_reinsert ?xs (nat source) (nat target)"
  have st: "nat source < length ?xs" "nat target < length ?xs"
    using assms by linarith+
  have len: "length ?new = length ?xs" using length_remove_reinsert [OF st] .
  have ne: "?new \<noteq> []" "?xs \<noteq> []" using len st by auto
  have eq1: "reorder_pages lib pdf source target = Inr ?new"
    using assms(1-5) by (rule reorder_pages_in_range)
  have inverse_move: "\<And>d. \<not> closed d \<Longrightarrow> pages d = ?new \<Longrightarrow>
                reorder_pages lib d target source = Inr ?xs"
  proof -
    fix d :: "'a document"
    assume d: "\<not> closed d" "pages d = ?new"
    have "reorder_pages lib d target source
            = Inr (remove_reinsert (pages d) (nat target) (nat source))"
      using d assms len by (intro reorder_pages_in_range) simp_all
    then show "reorder_pages lib d target source = Inr ?xs"
      using d remove_reinsert_inverse [OF st] by simp
  qed
  have pure: "\<exists>new. reorder_pages lib pdf source target = Inr new
            \<and> reorder_pages lib (pdf\<lparr>pages := new\<rparr>) target source = Inr ?xs"
    using eq1 inverse_move [of "pdf\<lparr>pages := ?new\<rparr>"] assms(1) by simp
  have session: "\<forall>s text0. current_pdf s = Some pdf
               \<and> parse_move pdf text0 = Inr (source, target)
               \<and> save_ok lib (name pdf @ ''.temp'') \<and> replace_ok lib \<and> open_ok lib (name pdf)
               \<longrightarrow> (\<exists>s1 s2. ThumbnailWidget_move_page lib s text0 = (None, s1)
                      \<and> dialogs s1 = dialogs s
                      \<and> py_index (move_history s1) (history_index s1) = Inr (source, target)
                      \<and> undo_page lib s1 = (None, s2)
                      \<and> dialogs s2 = dialogs s
                      \<and> map_option pages (current_pdf s2) = Some ?xs)"
  proof (intro allI impI, elim conjE)
    fix s :: "'a state" and text0
    assume c: "current_pdf s = Some pdf"
      and p: "parse_move pdf text0 = Inr (source, target)"
      and io: "save_ok lib (name pdf @ ''.temp'')" "replace_ok lib" "open_ok lib (name pdf)"
    let ?d1 = "\<lparr>name = name pdf, pages = ?new, is_pdf = True, closed = False\<rparr>"
    from rebuild_and_replace_ok [OF c eq1 io]
    obtain s' where r: "rebuild_and_replace lib s source target = (None, s')"
      and c': "current_pdf s' = Some ?d1" by blast
    let ?s1 = "add_to_move_history s' source target"
    have m1: "ThumbnailWidget_move_page lib s text0 = (None, ?s1)"
      using c p r ne assms(1,6) by (simp add: ThumbnailWidget_move_page_def truthy_open)
    have d1: "dialogs ?s1 = dialogs s" using rebuild_and_replace_keeps [OF r] by simp
    have last: "py_index (move_history ?s1) (history_index ?s1) = Inr (source, target)"
      and pos: "0 \<le> history_index ?s1"
      using add_to_move_history_last [of s' source target] by simp_all
    have c1: "current_pdf ?s1 = Some ?d1" using c' by simp
    have eq2: "reorder_pages lib ?d1 target source = Inr ?xs" by (rule inverse_move) simp_all
    from rebuild_and_replace_ok [OF c1 eq2] io
    obtain s2' where r2: "rebuild_and_replace lib ?s1 target source = (None, s2')"
      and c2: "current_pdf s2' = Some \<lparr>name = name pdf, pages = ?xs, is_pdf = True, closed = False\<rparr>"
      by auto
    let ?s2 = "s2'\<lparr>history_index := history_index s2' - 1\<rparr>"
    have m2: "PDFApp_move_page lib ?s1 (target + 1) (source + 1) = (None, s2')"
      using r2 by (simp add: PDFApp_move_page_def)
    have t1: "truthy (current_pdf ?s1) = Inr True"
      using c1 ne by (simp add: truthy_open)
    have u: "undo_page lib ?s1 = (None, ?s2)"
      using t1 pos last m2 by (simp add: undo_page_def)
    have d2: "dialogs ?s2 = dialogs s"
      using rebuild_and_replace_keeps [OF r2] d1 by simp
    have "map_option pages (current_pdf ?s2) = Some ?xs" using c2 by simp
    with m1 d1 last u d2
    show "\<exists>s1 s2. ThumbnailWidget_move_page lib s text0 = (None, s1)
                      \<and> dialogs s1 = dialogs s
                      \<and> py_index (move_history s1) (history_index s1) = Inr (source, target)
                      \<and> undo_page lib s1 = (None, s2)
                      \<and> dialogs s2 = dialogs s
                      \<and> map_option pages (current_pdf s2) = Some ?xs"
      by blast
  qed
  show ?thesis using pure session by blast
qed

text \<open>Page 2 of the example moved to position 4, then the move undone.\<close>

theorem reorder_then_inverse_restores_witness:
  "\<not> closed example_pdf \<and> (0::int) \<le> 1 \<and> 1 < int (length (pages example_pdf))
   \<and> (0::int) \<le> 3 \<and> 3 < int (length (pages example_pdf)) \<and> (1::int) \<noteq> 3
   \<and> current_pdf example_state = Some example_pdf
   \<and> parse_move example_pdf ''2,4'' = Inr (1, 3)
   \<and> save_ok example_lib (name example_pdf @ ''.temp'') \<and> replace_ok example_lib
   \<and> open_ok example_lib (name example_pdf)
   \<and> (\<exists>s1 s2. ThumbnailWidget_move_page example_lib example_state ''2,4'' = (None, s1)
         \<and> undo_page example_lib s1 = (None, s2)
         \<and> map_option pages (current_pdf s2) = Some [10, 11, 12, 13, 14])"
proof -
  have h: "\<not> closed example_pdf" "(0::int) \<le> 1" "1 < int (length (pages example_pdf))"
    "(0::int) \<le> 3" "3 < int (length (pages example_pdf))" "(1::int) \<noteq> 3"
    by (simp_all add: example_pdf_def)
  have c: "current_pdf example_state = Some example_pdf"
    by (simp add: example_state_def)
  have p: "parse_move example_pdf ''2,4'' = Inr (1, 3)"
    by code_simp
  have io: "save_ok example_lib (name example_pdf @ ''.temp'')" "replace_ok example_lib"
    "open_ok example_lib (name example_pdf)"
    by (simp_all add: example_lib_def)
  have xs: "pages example_pdf = [10, 11, 12, 13, 14]" by (simp add: example_pdf_def)
  from reorder_then_inverse_restores [OF h, of example_lib] c p io
  have "\<exists>s1 s2. ThumbnailWidget_move_page example_lib example_state ''2,4'' = (None, s1)
         \<and> undo_page example_lib s1 = (None, s2)
         \<and> map_option pages (current_pdf s2) = Some (pages example_pdf)"
    by blast
  then show ?thesis using h c p io unfolding xs by simp
qed

section \<open>The reorder permutes the pages\<close>

text \<open>
  Claim C9. For an open document and two different page indices in range, the rebuilt
  document has as many pages as the original and the same pages, each as often as before.
  Hence a history whose records all name pages of the current document keeps that property
  through a move, an undo and a redo, whatever their outcome; the helper that undo and redo
  call checks no bounds itself.
\<close>

theorem reorder_preserves_pages:
  assumes "\<not> closed pdf"
    and "0 \<le> source" "source < int (length (pages pdf))"
    and "0 \<le> target" "target < int (length (pages pdf))"
    and "source \<noteq> target"
  shows "(\<exists>new. reorder_pages lib pdf source target = Inr new
            \<and> length new = length (pages pdf)
            \<and> mset new = mset (pages pdf))
         \<and> (\<forall>s text0. history_in_range s \<longrightarrow>
               history_in_range (snd (ThumbnailWidget_move_page lib s text0))
             \<and> history_in_range (snd (undo_page lib s))
             \<and> history_in_range (snd (redo_page lib s)))"
proof -
  have st: "nat source < length (pages pdf)" "nat target < length (pages pdf)"
    using assms by linarith+
  have "reorder_pages lib pdf source target
          = Inr (remove_reinsert (pages pdf) (nat source) (nat target))"
    using assms(1-5) by (rule reorder_pages_in_range)
  then have "\<exists>new. reorder_pages lib pdf source target = Inr new
            \<and> length new = length (pages pdf)
            \<and> mset new = mset (pages pdf)"
    using length_remove_reinsert [OF st] mset_remove_reinsert [OF st] by simp
  then show ?thesis
    using history_in_range_move history_in_range_undo history_in_range_redo by blast
qed


text \<open>The example after its move: the record \<open>(1, 3)\<close> stays in range when undone.\<close>

theorem reorder_preserves_pages_witness:
  "\<not> closed example_pdf \<and> (0::int) \<le> 1 \<and> 1 < int (length (pages example_pdf))
   \<and> (0::int) \<le> 3 \<and> 3 < int (length (pages example_pdf)) \<and> (1::int) \<noteq> 3
   \<and> (\<exists>new. reorder_pages example_lib example_pdf 1 3 = Inr new
         \<and> length new = length (pages example_pdf)
         \<and> mset new = mset (pages example_pdf))
   \<and> history_in_range example_moved
   \<and> history_in_range (snd (undo_page example_lib example_moved))"
proof -
  have h: "\<not> closed example_pdf" "(0::int) \<le> 1" "1 < int (length (pages example_pdf))"
    "(0::int) \<le> 3" "3 < int (length (pages example_pdf))" "(1::int) \<noteq> 3"
    by (simp_all add: example_pdf_def)
  have r: "history_in_range example_moved"
    by (simp add: history_in_range_def example_moved_def)
  note t = reorder_preserves_pages [OF h, of example_lib]
  from t have "\<exists>new. reorder_pages example_lib example_pdf 1 3 = Inr new
         \<and> length new = length (pages example_pdf)
         \<and> mset new = mset (pages example_pdf)"
    by blast
  moreover from t r have "history_in_range (snd (undo_page example_lib example_moved))"
    by blast
  ultimately show ?thesis using h r by blast
qed

section \<open>Failure of a reorder and the history\<close>

text \<open>
  A move from the thumbnail panel and an undo that report an error leave the records and
  the cursor as they were (\<open>move_page_error_keeps_history\<close>,
  \<open>undo_page_error_keeps_history\<close>): both touch the history only after the reorder has
  succeeded. The redo advances the cursor before it calls the reorder and does not take the
  step back in its handler.
\<close>

text \<open>
  Claim C3. The claim asks that a reorder that fails, also during undo or redo, leaves the
  records and the cursor of the history as they were. For the redo the code does otherwise:
  whenever \<^verbatim>\<open>redo_page\<close> reports an error, the records are unchanged but the cursor
  has advanced by one.
\<close>

theorem redo_page_error_moves_cursor:
  assumes "dialogs (snd (redo_page lib s)) \<noteq> dialogs s"
  shows "history_index (snd (redo_page lib s)) = history_index s + 1
         \<and> move_history (snd (redo_page lib s)) = move_history s"
  using assms redo_page_history [of lib s] by blast

text \<open>
  After a move and its undo the cursor is \<open>-1\<close>; a redo whose save fails reports the
  error and leaves the cursor at \<open>0\<close>.
\<close>

theorem redo_page_error_moves_cursor_witness:
  "dialogs (snd (redo_page failing_lib example_undone)) \<noteq> dialogs example_undone
   \<and> fst (redo_page failing_lib example_undone) = None
   \<and> dialogs (snd (redo_page failing_lib example_undone))
       = [Critical ''Error redoing page move: Error moving page: save'']
   \<and> move_history example_undone = [(1, 3)]
   \<and> history_index example_undone = - 1
   \<and> history_index (snd (redo_page failing_lib example_undone)) = 0"
proof -
  have d: "dialogs (snd (redo_page failing_lib example_undone))
             = [Critical ''Error redoing page move: Error moving page: save'']"
    by code_simp
  have e: "dialogs example_undone = []" "history_index example_undone = - 1"
    "move_history example_undone = [(1, 3)]"
    by (simp_all add: example_undone_def example_state_def)
  have h: "dialogs (snd (redo_page failing_lib example_undone)) \<noteq> dialogs example_undone"
    using d e by simp
  have f: "fst (redo_page failing_lib example_undone) = None"
    by code_simp
  from redo_page_error_moves_cursor [OF h] e
  have "history_index (snd (redo_page failing_lib example_undone)) = 0" by simp
  then show ?thesis using d e h f by simp
qed

section \<open>The history over the life of a document\<close>

text \<open>
  Claim C4. The claim asks that the move history become empty and the cursor \<open>-1\<close>
  whenever the document is closed or another one is opened. The code does otherwise: the
  history is empty with cursor \<open>-1\<close> in the initial state only, and
  \<^verbatim>\<open>close_pdf\<close> and \<^verbatim>\<open>_load_and_display_pdf\<close> leave the records and the cursor as
  they are, whatever the state. The records of one document are therefore still there, to
  be undone, when the next document is open.
\<close>

theorem close_and_open_keep_history:
  "move_history (init_state fs) = [] \<and> history_index (init_state fs) = - 1
   \<and> move_history (close_pdf s) = move_history s
   \<and> history_index (close_pdf s) = history_index s
   \<and> move_history (snd (load_and_display_pdf lib s fname)) = move_history s
   \<and> history_index (snd (load_and_display_pdf lib s fname)) = history_index s"
  using close_pdf_history [of s] load_and_display_pdf_history [of lib s fname]
  by (simp add: init_state_def)

text \<open>
  After page 2 of \<^verbatim>\<open>a.pdf\<close> was moved to position 4, the five-page \<^verbatim>\<open>c.pdf\<close> is
  opened: the record \<open>(1, 3)\<close> and the cursor \<open>0\<close> are still in place, and an undo
  then rewrites \<^verbatim>\<open>c.pdf\<close>, which was never reordered, without any message.
\<close>

theorem close_and_open_keep_history_witness:
  "move_history example_two_files = [(1, 3)]
   \<and> history_index example_two_files = 0
   \<and> move_history (close_pdf example_two_files) = [(1, 3)]
   \<and> history_index (close_pdf example_two_files) = 0
   \<and> fst (load_and_display_pdf example_lib example_two_files ''c.pdf'') = None
   \<and> map_option pages
        (current_pdf (snd (load_and_display_pdf example_lib example_two_files ''c.pdf'')))
       = Some [30, 31, 32, 33, 34]
   \<and> move_history (snd (load_and_display_pdf example_lib example_two_files ''c.pdf''))
       = [(1, 3)]
   \<and> history_index (snd (load_and_display_pdf example_lib example_two_files ''c.pdf'')) = 0
   \<and> fst (undo_page example_lib
             (snd (load_and_display_pdf example_lib example_two_files ''c.pdf''))) = None
   \<and> dialogs (snd (undo_page example_lib
                 (snd (load_and_display_pdf example_lib example_two_files ''c.pdf'')))) = []
   \<and> files (snd (undo_page example_lib
               (snd (load_and_display_pdf example_lib example_two_files ''c.pdf'')))) ''c.pdf''
       = Some (True, [30, 33, 31, 32, 34])"
proof -
  have e: "move_history example_two_files = [(1, 3)]" "history_index example_two_files = 0"
    by (simp_all add: example_two_files_def example_moved_def)
  note t = close_and_open_keep_history
             [of "Map.empty :: string \<rightharpoonup> nat disk_file" example_two_files example_lib
                 "''c.pdf''"]
  from t e have k: "move_history (close_pdf example_two_files) = [(1, 3)]"
    "history_index (close_pdf example_two_files) = 0"
    "move_history (snd (load_and_display_pdf example_lib example_two_files ''c.pdf''))
       = [(1, 3)]"
    "history_index (snd (load_and_display_pdf example_lib example_two_files ''c.pdf'')) = 0"
    by simp_all
  have l: "fst (load_and_display_pdf example_lib example_two_files ''c.pdf'') = None"
    "map_option pages
        (current_pdf (snd (load_and_display_pdf example_lib example_two_files ''c.pdf'')))
       = Some [30, 31, 32, 33, 34]"
    by code_simp+
  have u: "fst (undo_page example_lib
             (snd (load_and_display_pdf example_lib example_two_files ''c.pdf''))) = None"
    "dialogs (snd (undo_page example_lib
                 (snd (load_and_display_pdf example_lib example_two_files ''c.pdf'')))) = []"
    "files (snd (undo_page example_lib
               (snd (load_and_display_pdf example_lib example_two_files ''c.pdf'')))) ''c.pdf''
       = Some (True, [30, 33, 31, 32, 34])"
    by code_simp+
  show ?thesis using e k l u by simp
qed

section \<open>The invariant of the history\<close>

text \<open>
  Claim C5. The cursor satisfies \<open>-1 \<le> history_index < max (len history) 1\<close>, and is
  \<open>-1\<close> exactly when it points at no record. This holds in the initial state, it holds
  after every \<^verbatim>\<open>add_to_move_history\<close>, and undo, redo, the thumbnail move, closing and
  opening preserve it. Undo leaves the cursor alone when it is negative, redo when it is at
  or past the last record.
\<close>

theorem history_invariant_preserved:
  "history_invariant (init_state fs)
   \<and> history_index (init_state fs) = - 1
   \<and> history_invariant (add_to_move_history s source target)
   \<and> (history_invariant s \<longrightarrow>
        history_invariant (snd (undo_page lib s))
        \<and> history_invariant (snd (redo_page lib s))
        \<and> history_invariant (snd (ThumbnailWidget_move_page lib s text0))
        \<and> history_invariant (close_pdf s)
        \<and> history_invariant (snd (load_and_display_pdf lib s fname)))
   \<and> (history_index s < 0 \<longrightarrow> history_index (snd (undo_page lib s)) = history_index s)
   \<and> (history_index s \<ge> int (length (move_history s)) - 1 \<longrightarrow>
        history_index (snd (redo_page lib s)) = history_index s)"
proof -
  have i: "history_invariant (init_state fs) \<and> history_index (init_state fs) = - 1"
    by (simp add: history_invariant_iff init_state_def)
  have a: "history_invariant (add_to_move_history s source target)"
    by (rule history_invariant_add)
  have u: "history_invariant s \<Longrightarrow> history_invariant (snd (undo_page lib s))"
    using undo_page_history [of lib s] by (auto simp: history_invariant_iff)
  have r: "history_invariant s \<Longrightarrow> history_invariant (snd (redo_page lib s))"
    using redo_page_history [of lib s] by (auto simp: history_invariant_iff)
  have m: "history_invariant s \<Longrightarrow>
             history_invariant (snd (ThumbnailWidget_move_page lib s text0))"
  proof -
    assume inv: "history_invariant s"
    from move_page_cases [of lib s text0] show ?thesis
    proof (elim disjE exE conjE)
      assume "move_history (snd (ThumbnailWidget_move_page lib s text0)) = move_history s"
        "history_index (snd (ThumbnailWidget_move_page lib s text0)) = history_index s"
      then show ?thesis using inv by (simp add: history_invariant_iff)
    next
      fix pdf source target s1
      assume "ThumbnailWidget_move_page lib s text0
                = (None, add_to_move_history s1 source target)"
      then show ?thesis by (simp add: history_invariant_add)
    qed
  qed
  have c: "history_invariant s \<Longrightarrow> history_invariant (close_pdf s)"
    using close_pdf_history [of s] by (simp add: history_invariant_iff)
  have l: "history_invariant s \<Longrightarrow> history_invariant (snd (load_and_display_pdf lib s fname))"
    using load_and_display_pdf_history [of lib s fname] by (simp add: history_invariant_iff)
  have gu: "history_index s < 0 \<Longrightarrow> history_index (snd (undo_page lib s)) = history_index s"
    using undo_page_history [of lib s] by auto
  have gr: "history_index s \<ge> int (length (move_history s)) - 1 \<Longrightarrow>
        history_index (snd (redo_page lib s)) = history_index s"
    using redo_page_history [of lib s] by auto
  show ?thesis using i a u r m c l gu gr by blast
qed

text \<open>The example after its move, undone, redone and moved again.\<close>

theorem history_invariant_preserved_witness:
  "history_invariant example_moved
   \<and> history_invariant (snd (undo_page example_lib example_moved))
   \<and> history_invariant (snd (redo_page example_lib example_moved))
   \<and> history_invariant (snd (ThumbnailWidget_move_page example_lib example_moved ''1,2''))
   \<and> history_index (snd (undo_page example_lib example_moved)) = - 1
   \<and> history_index example_undone < 0
   \<and> history_index (snd (undo_page example_lib example_undone)) = history_index example_undone"
proof -
  have h: "history_invariant example_moved"
    by (simp add: history_invariant_def cursor_on_record_def example_moved_def)
  have g: "history_index example_undone < 0"
    by (simp add: example_undone_def)
  have v: "history_index (snd (undo_page example_lib example_moved)) = - 1"
    by code_simp
  note t = history_invariant_preserved [of _ example_moved _ _ example_lib "''1,2''"]
  from t h have "history_invariant (snd (undo_page example_lib example_moved))
   \<and> history_invariant (snd (redo_page example_lib example_moved))
   \<and> history_invariant (snd (ThumbnailWidget_move_page example_lib example_moved ''1,2''))"
    by blast
  moreover from history_invariant_preserved [of _ example_undone _ _ example_lib] g
  have "history_index (snd (undo_page example_lib example_undone)) = history_index example_undone"
    by blast
  ultimately show ?thesis using h g v by blast
qed

section \<open>Recording a move\<close>

text \<open>
  Claim C6. With the cursor at \<open>-1\<close> or above, \<^verbatim>\<open>add_to_move_history\<close> keeps the
  records up to and including the cursor, drops those after it, appends the new record and
  sets the cursor to the index of that record; a successful move from the thumbnail panel
  does exactly this with its source and target. No other operation changes the records:
  undo, redo, the move helper, closing, opening and splitting leave them as they are.
\<close>

theorem add_to_move_history_truncates_and_appends:
  "(- 1 \<le> history_index s \<longrightarrow>
      move_history (add_to_move_history s source target)
        = take (nat (history_index s + 1)) (move_history s) @ [(source, target)])
   \<and> history_index (add_to_move_history s source target)
       = int (length (move_history (add_to_move_history s source target))) - 1
   \<and> py_index (move_history (add_to_move_history s source target))
               (history_index (add_to_move_history s source target)) = Inr (source, target)
   \<and> (\<forall>pdf a b s1. current_pdf s = Some pdf \<and> parse_move pdf text0 = Inr (a, b) \<and> a \<noteq> b
         \<and> rebuild_and_replace lib s a b = (None, s1) \<and> - 1 \<le> history_index s
         \<longrightarrow> move_history (snd (ThumbnailWidget_move_page lib s text0))
               = take (nat (history_index s + 1)) (move_history s) @ [(a, b)]
             \<and> py_index (move_history (snd (ThumbnailWidget_move_page lib s text0)))
                 (history_index (snd (ThumbnailWidget_move_page lib s text0))) = Inr (a, b))
   \<and> move_history (snd (undo_page lib s)) = move_history s
   \<and> move_history (snd (redo_page lib s)) = move_history s
   \<and> move_history (snd (PDFApp_move_page lib s m n)) = move_history s
   \<and> move_history (close_pdf s) = move_history s
   \<and> move_history (snd (load_and_display_pdf lib s fname)) = move_history s
   \<and> move_history (snd (split_pdf lib s text1 output_dir)) = move_history s"
proof -
  have a1: "- 1 \<le> history_index s \<longrightarrow>
      move_history (add_to_move_history s source target)
        = take (nat (history_index s + 1)) (move_history s) @ [(source, target)]"
    using add_to_move_history_records [of s source target] by simp
  have a2: "history_index (add_to_move_history s source target)
       = int (length (move_history (add_to_move_history s source target))) - 1"
    by (rule add_to_move_history_cursor)
  have a3: "py_index (move_history (add_to_move_history s source target))
               (history_index (add_to_move_history s source target)) = Inr (source, target)"
    using add_to_move_history_last [of s source target] by simp
  have w: "\<forall>pdf a b s1. current_pdf s = Some pdf \<and> parse_move pdf text0 = Inr (a, b) \<and> a \<noteq> b
         \<and> rebuild_and_replace lib s a b = (None, s1) \<and> - 1 \<le> history_index s
         \<longrightarrow> move_history (snd (ThumbnailWidget_move_page lib s text0))
               = take (nat (history_index s + 1)) (move_history s) @ [(a, b)]
             \<and> py_index (move_history (snd (ThumbnailWidget_move_page lib s text0)))
                 (history_index (snd (ThumbnailWidget_move_page lib s text0))) = Inr (a, b)"
  proof (intro allI impI, elim conjE)
    fix pdf a b s1
    assume c: "current_pdf s = Some pdf" and p: "parse_move pdf text0 = Inr (a, b)"
      and ne: "a \<noteq> b" and r: "rebuild_and_replace lib s a b = (None, s1)"
      and i: "- 1 \<le> history_index s"
    from parse_move_in_range [OF p]
    have o: "\<not> closed pdf" "pages pdf \<noteq> []" by auto
    have m: "ThumbnailWidget_move_page lib s text0 = (None, add_to_move_history s1 a b)"
      using c p ne r o by (simp add: ThumbnailWidget_move_page_def truthy_open)
    have k: "move_history s1 = move_history s" "history_index s1 = history_index s"
      using rebuild_and_replace_keeps [OF r] by simp_all
    show "move_history (snd (ThumbnailWidget_move_page lib s text0))
               = take (nat (history_index s + 1)) (move_history s) @ [(a, b)]
             \<and> py_index (move_history (snd (ThumbnailWidget_move_page lib s text0)))
                 (history_index (snd (ThumbnailWidget_move_page lib s text0))) = Inr (a, b)"
      using m k i add_to_move_history_records [of s1 a b]
        add_to_move_history_last [of s1 a b]
      by simp
  qed
  have u: "move_history (snd (undo_page lib s)) = move_history s"
    using undo_page_history [of lib s] by simp
  have r: "move_history (snd (redo_page lib s)) = move_history s"
    using redo_page_history [of lib s] by simp
  have h: "move_history (snd (PDFApp_move_page lib s m n)) = move_history s"
    using PDFApp_move_page_keeps [of lib s m n] by (cases "PDFApp_move_page lib s m n") simp
  have c: "move_history (close_pdf s) = move_history s"
    using close_pdf_history [of s] by simp
  have l: "move_history (snd (load_and_display_pdf lib s fname)) = move_history s"
    using load_and_display_pdf_history [of lib s fname] by simp
  have sp: "move_history (snd (split_pdf lib s text1 output_dir)) = move_history s"
    using split_pdf_history [of lib s text1 output_dir] by simp
  show ?thesis using a1 a2 a3 w u r h c l sp by blast
qed

text \<open>
  The example after a move and its undo: a new move of page 1 to position 2 replaces the
  record that could have been redone.
\<close>

theorem add_to_move_history_truncates_and_appends_witness:
  "- 1 \<le> history_index example_undone
   \<and> move_history (add_to_move_history example_undone 0 1) = [(0, 1)]
   \<and> current_pdf example_undone = Some example_pdf
   \<and> parse_move example_pdf ''1,2'' = Inr (0, 1)
   \<and> fst (rebuild_and_replace example_lib example_undone 0 1) = None
   \<and> move_history example_undone = [(1, 3)]
   \<and> move_history (snd (ThumbnailWidget_move_page example_lib example_undone ''1,2''))
       = [(0, 1)]"
proof -
  have i: "- 1 \<le> history_index example_undone"
    and mh: "move_history example_undone = [(1, 3)]"
    and c: "current_pdf example_undone = Some example_pdf"
    and ix: "history_index example_undone = - 1"
    by (simp_all add: example_undone_def example_state_def)
  have p: "parse_move example_pdf ''1,2'' = Inr (0, 1)" by code_simp
  have f: "fst (rebuild_and_replace example_lib example_undone 0 1) = None" by code_simp
  obtain s1 where r: "rebuild_and_replace example_lib example_undone 0 1 = (None, s1)"
    using f by (cases "rebuild_and_replace example_lib example_undone 0 1") simp
  note t = add_to_move_history_truncates_and_appends
             [of example_undone 0 1 "''1,2''" example_lib]
  from t i have "move_history (add_to_move_history example_undone 0 1)
        = take (nat (history_index example_undone + 1)) (move_history example_undone) @ [(0, 1)]"
    by blast
  then have a: "move_history (add_to_move_history example_undone 0 1) = [(0, 1)]"
    using ix by simp
  note q = t [THEN conjunct2, THEN conjunct2, THEN conjunct2, THEN conjunct1]
  from q [rule_format, of example_pdf 0 1 s1] c p r i
  have "move_history (snd (ThumbnailWidget_move_page example_lib example_undone ''1,2''))
               = take (nat (history_index example_undone + 1)) (move_history example_undone)
                   @ [(0, 1)]"
    by simp
  then have b: "move_history (snd (ThumbnailWidget_move_page example_lib example_undone ''1,2''))
       = [(0, 1)]"
    using ix by simp
  show ?thesis using i a c p f mh b by simp
qed

section \<open>Validation before splitting\<close>

text \<open>
  Claim C7. With a document open, when the groups of the range text parse and some page
  index of some group lies outside \<open>[0, page count)\<close>, the validation raises
  \<^verbatim>\<open>ValueError("Invalid page numbers")\<close>, the split ends with the warning about
  valid page numbers and no file is written. Conversely, whenever the split writes a file,
  the groups have parsed and every index of every group is in range.
\<close>

theorem split_rejects_out_of_range:
  assumes "current_pdf s = Some pdf" "\<not> closed pdf" "pages pdf \<noteq> []"
  shows "(parse_groups (split_on CHR '';'' (py_strip text0)) = Inr groups
            \<and> (\<exists>p\<in>set (concat groups). p < 0 \<or> p \<ge> int (length (pages pdf)))
          \<longrightarrow> parse_page_groups pdf (py_strip text0) = Inl (ValueError ''Invalid page numbers'')
              \<and> split_pdf lib s text0 output_dir
                  = (None, show_dialog (Warning
                       ''Please enter valid page numbers in format: 1,4;2-3;5-6'') s)
              \<and> files (snd (split_pdf lib s text0 output_dir)) = files s)
         \<and> (files (snd (split_pdf lib s text0 output_dir)) \<noteq> files s
          \<longrightarrow> (\<exists>gs. parse_groups (split_on CHR '';'' (py_strip text0)) = Inr gs
                 \<and> (\<forall>p\<in>set (concat gs). 0 \<le> p \<and> p < int (length (pages pdf)))))"
proof (intro conjI impI)
  assume a: "parse_groups (split_on CHR '';'' (py_strip text0)) = Inr groups
            \<and> (\<exists>p\<in>set (concat groups). p < 0 \<or> p \<ge> int (length (pages pdf)))"
  then have ne: "py_strip text0 \<noteq> []" using parse_groups_nonempty_text by blast
  show r: "parse_page_groups pdf (py_strip text0) = Inl (ValueError ''Invalid page numbers'')"
    using a assms(2) by (simp add: parse_page_groups_def any_invalid_open)
  show w: "split_pdf lib s text0 output_dir
                  = (None, show_dialog (Warning
                       ''Please enter valid page numbers in format: 1,4;2-3;5-6'') s)"
    using assms r ne by (simp add: split_pdf_def truthy_open Let_def)
  show "files (snd (split_pdf lib s text0 output_dir)) = files s"
    using w by simp
next
  assume "files (snd (split_pdf lib s text0 output_dir)) \<noteq> files s"
  from split_pdf_files_changed [OF this] assms(1)
  obtain gs where p: "parse_page_groups pdf (py_strip text0) = Inr gs" by auto
  have g: "parse_groups (split_on CHR '';'' (py_strip text0)) = Inr gs"
    using p by (rule parse_page_groups_Inr)
  have "any_invalid pdf (concat gs) = Inr False"
    using p g by (auto simp: parse_page_groups_def and_then_def split: sum.splits if_splits)
  then have "\<not> (\<exists>p\<in>set (concat gs). p < 0 \<or> p \<ge> int (length (pages pdf)))"
    using assms(2) by (simp add: any_invalid_open)
  then have "\<forall>p\<in>set (concat gs). 0 \<le> p \<and> p < int (length (pages pdf))"
    by (meson not_le not_less)
  with g show "\<exists>gs. parse_groups (split_on CHR '';'' (py_strip text0)) = Inr gs
                 \<and> (\<forall>p\<in>set (concat gs). 0 \<le> p \<and> p < int (length (pages pdf)))"
    by blast
qed

text \<open>
  On the five-page example the text \<^verbatim>\<open>1-9\<close> is rejected and nothing is written; the
  text \<^verbatim>\<open>1-2;3\<close> writes \<^verbatim>\<open>part1.pdf\<close>.
\<close>

theorem split_rejects_out_of_range_witness:
  "current_pdf example_state = Some example_pdf \<and> \<not> closed example_pdf
   \<and> pages example_pdf \<noteq> []
   \<and> parse_groups (split_on CHR '';'' (py_strip ''1-9'')) = Inr [[0, 1, 2, 3, 4, 5, 6, 7, 8]]
   \<and> (8::int) \<in> set (concat [[0, 1, 2, 3, 4, 5, 6, 7, 8]])
   \<and> (8::int) \<ge> int (length (pages example_pdf))
   \<and> split_pdf example_lib example_state ''1-9'' ''/out''
       = (None, show_dialog (Warning
            ''Please enter valid page numbers in format: 1,4;2-3;5-6'') example_state)
   \<and> files (snd (split_pdf example_lib example_state ''1-9'' ''/out'')) = files example_state
   \<and> files (snd (split_pdf example_lib example_state ''1-2;3'' ''/out''))
       \<noteq> files example_state
   \<and> (\<exists>gs. parse_groups (split_on CHR '';'' (py_strip ''1-2;3'')) = Inr gs
          \<and> list_all (\<lambda>p. 0 \<le> p \<and> p < int (length (pages example_pdf))) (concat gs))"
proof -
  have h: "current_pdf example_state = Some example_pdf" "\<not> closed example_pdf"
    "pages example_pdf \<noteq> []"
    by (simp_all add: example_state_def example_pdf_def)
  have g: "parse_groups (split_on CHR '';'' (py_strip ''1-9'')) = Inr [[0, 1, 2, 3, 4, 5, 6, 7, 8]]"
    by code_simp
  have m: "(8::int) \<in> set (concat [[0, 1, 2, 3, 4, 5, 6, 7, 8]])"
    "(8::int) \<ge> int (length (pages example_pdf))"
    by (simp_all add: example_pdf_def)
  then have b: "\<exists>p\<in>set (concat [[0, 1, 2, 3, 4, 5, 6, 7, 8]]).
                  p < 0 \<or> p \<ge> int (length (pages example_pdf))"
    by blast
  note t1 = split_rejects_out_of_range [OF h, of "''1-9''" _ example_lib "''/out''",
              THEN conjunct1, rule_format, OF conjI, OF g b]
  have w: "files (snd (split_pdf example_lib example_state ''1-2;3'' ''/out''))
             ''/out/a_split/part1.pdf'' = Some (True, [10, 11])"
    by code_simp
  have n: "files example_state ''/out/a_split/part1.pdf'' = None"
    by (simp add: example_state_def)
  have c: "files (snd (split_pdf example_lib example_state ''1-2;3'' ''/out''))
       \<noteq> files example_state"
  proof
    assume "files (snd (split_pdf example_lib example_state ''1-2;3'' ''/out''))
              = files example_state"
    then have "files (snd (split_pdf example_lib example_state ''1-2;3'' ''/out''))
                 ''/out/a_split/part1.pdf'' = files example_state ''/out/a_split/part1.pdf''"
      by simp
    then show False using w n by simp
  qed
  note t2 = split_rejects_out_of_range [OF h, of "''1-2;3''" _ example_lib "''/out''",
              THEN conjunct2, rule_format, OF c]
  from t2 have d: "\<exists>gs. parse_groups (split_on CHR '';'' (py_strip ''1-2;3'')) = Inr gs
          \<and> list_all (\<lambda>p. 0 \<le> p \<and> p < int (length (pages example_pdf))) (concat gs)"
    by (simp only: list_all_iff)
  show ?thesis using h g m t1 c d by simp
qed

section \<open>The range syntax\<close>

text \<open>
  Claim C8. The parser agrees with the range syntax: the text is split at \<^verbatim>\<open>;\<close> into
  groups and a group at \<^verbatim>\<open>,\<close> into items; a group parses exactly when each of its
  items is a one-based page number or a one-based inclusive range, and its page list is
  then the union of the items' pages, strictly ascending, so without duplicates. The page
  list depends only on which items occur, not on their order or repetition.
\<close>

theorem parse_groups_follows_range_syntax:
  "(parse_group part = Inr g \<longleftrightarrow> group_pages part = Some g)
   \<and> (parse_groups (split_on CHR '';'' ranges_text) = Inr gs
        \<longleftrightarrow> map group_pages (split_on CHR '';'' ranges_text) = map Some gs)
   \<and> (parse_page_groups pdf ranges_text = Inr gs
        \<longrightarrow> map group_pages (split_on CHR '';'' ranges_text) = map Some gs)
   \<and> (parse_group part = Inr g
        \<longrightarrow> sorted_wrt (<) g
          \<and> set g = (\<Union>segment\<in>set (split_on CHR '','' part).
                       case read_item segment of None \<Rightarrow> {} | Some it \<Rightarrow> item_pages it))
   \<and> (parse_group part = Inr g \<and> set (split_on CHR '','' part') = set (split_on CHR '','' part)
        \<longrightarrow> parse_group part' = Inr g)"
proof -
  have a: "parse_group part = Inr g \<longleftrightarrow> group_pages part = Some g"
    by (rule parse_group_iff)
  have b: "parse_groups (split_on CHR '';'' ranges_text) = Inr gs
        \<longleftrightarrow> map group_pages (split_on CHR '';'' ranges_text) = map Some gs"
    by (rule parse_groups_iff)
  have c: "parse_page_groups pdf ranges_text = Inr gs
        \<longrightarrow> map group_pages (split_on CHR '';'' ranges_text) = map Some gs"
    using parse_page_groups_Inr [of pdf ranges_text gs] b by blast
  have d: "parse_group part = Inr g
        \<longrightarrow> sorted_wrt (<) g
          \<and> set g = (\<Union>segment\<in>set (split_on CHR '','' part).
                       case read_item segment of None \<Rightarrow> {} | Some it \<Rightarrow> item_pages it)"
    using a group_pages_set [of part g] by blast
  have e: "parse_group part = Inr g \<and> set (split_on CHR '','' part') = set (split_on CHR '','' part)
        \<longrightarrow> parse_group part' = Inr g"
    using group_pages_order [of part' part] parse_group_iff [of part g]
      parse_group_iff [of part' g] by auto
  show ?thesis using a b c d e by blast
qed

text \<open>Items out of order and repeated give the same ascending list.\<close>

theorem parse_groups_follows_range_syntax_witness:
  "parse_group ''4,1,1-2'' = Inr [0, 1, 3]
   \<and> group_pages ''4,1,1-2'' = Some [0, 1, 3]
   \<and> set (split_on CHR '','' ''1-2,1,4,4'') = set (split_on CHR '','' ''4,1,1-2'')
   \<and> parse_group ''1-2,1,4,4'' = Inr [0, 1, 3]
   \<and> parse_page_groups example_pdf ''1,4;2-3;5-5'' = Inr [[0, 3], [1, 2], [4]]
   \<and> map group_pages (split_on CHR '';'' ''1,4;2-3;5-5'') = map Some [[0, 3], [1, 2], [4]]"
proof -
  have a: "parse_group ''4,1,1-2'' = Inr [0, 1, 3]" by code_simp
  have s: "set (split_on CHR '','' ''1-2,1,4,4'') = set (split_on CHR '','' ''4,1,1-2'')"
    by code_simp
  have p: "parse_page_groups example_pdf ''1,4;2-3;5-5'' = Inr [[0, 3], [1, 2], [4]]"
    by code_simp
  note t = parse_groups_follows_range_syntax
             [of "''4,1,1-2''" "[0, 1, 3]" "''1,4;2-3;5-5''" "[[0, 3], [1, 2], [4]]"
                 example_pdf "''1-2,1,4,4''"]
  from t a have b: "group_pages ''4,1,1-2'' = Some [0, 1, 3]" by blast
  from t a s have c: "parse_group ''1-2,1,4,4'' = Inr [0, 1, 3]" by blast
  from t p have d: "map group_pages (split_on CHR '';'' ''1,4;2-3;5-5'')
                      = map Some [[0, 3], [1, 2], [4]]"
    by blast
  show ?thesis using a b s c p d by blast
qed

section \<open>Descending ranges\<close>

text \<open>
  Claim C10. A range item \<^verbatim>\<open>a-b\<close> whose two numbers parse and satisfy \<open>a > b\<close>
  raises no error and adds no page. A group made of such items only parses to the empty
  page list, and a text whose groups are all of that kind passes the validation, whatever
  the document.
\<close>

theorem descending_range_is_empty:
  "(read_item segment = Some (Range a b) \<and> b < a
      \<longrightarrow> add_segment page_set segment = Inr page_set)
   \<and> (list_all descending_range (split_on CHR '','' part) \<longrightarrow> parse_group part = Inr [])
   \<and> ((\<forall>part\<in>set (split_on CHR '';'' ranges_text).
          list_all descending_range (split_on CHR '','' part))
      \<longrightarrow> parse_page_groups pdf ranges_text = Inr (map (\<lambda>part. []) (split_on CHR '';'' ranges_text)))"
proof (intro conjI impI)
  assume "read_item segment = Some (Range a b) \<and> b < a"
  then show "add_segment page_set segment = Inr page_set"
    using add_segment_Some [of segment "Range a b" page_set] by simp
next
  assume "list_all descending_range (split_on CHR '','' part)"
  then show "parse_group part = Inr []"
    by (simp add: parse_group_def add_segments_descending)
next
  assume "\<forall>part\<in>set (split_on CHR '';'' ranges_text).
          list_all descending_range (split_on CHR '','' part)"
  from parse_groups_descending [OF this]
  show "parse_page_groups pdf ranges_text = Inr (map (\<lambda>part. []) (split_on CHR '';'' ranges_text))"
    by (simp add: parse_page_groups_def concat_all_empty)
qed

text \<open>The item \<^verbatim>\<open>5-2\<close>.\<close>

theorem descending_range_is_empty_witness:
  "read_item ''5-2'' = Some (Range 5 2) \<and> (2::int) < 5
   \<and> add_segment {1} ''5-2'' = Inr {1}
   \<and> list_all descending_range (split_on CHR '','' ''5-2,3-1'')
   \<and> parse_group ''5-2,3-1'' = Inr []
   \<and> split_on CHR '';'' ''5-2'' = [''5-2'']
   \<and> parse_page_groups example_pdf ''5-2'' = Inr [[]]"
proof -
  have r: "read_item ''5-2'' = Some (Range 5 2)" by code_simp
  have l: "list_all descending_range (split_on CHR '','' ''5-2,3-1'')" by code_simp
  have l1: "list_all descending_range (split_on CHR '','' ''5-2'')" by code_simp
  have s: "split_on CHR '';'' ''5-2'' = [''5-2'']" by code_simp
  have q: "\<forall>part\<in>set (split_on CHR '';'' ''5-2'').
             list_all descending_range (split_on CHR '','' part)"
    unfolding s using l1 by simp
  note t = descending_range_is_empty
             [of "''5-2''" 5 2 "{1}" "''5-2,3-1''" "''5-2''" example_pdf]
  from t r have a: "add_segment {1} ''5-2'' = Inr {1}" by simp
  from t l have b: "parse_group ''5-2,3-1'' = Inr []" by blast
  from t q have "parse_page_groups example_pdf ''5-2''
                   = Inr (map (\<lambda>part. []) (split_on CHR '';'' ''5-2''))"
    by blast
  then have c: "parse_page_groups example_pdf ''5-2'' = Inr [[]]" unfolding s by simp
  show ?thesis using r a l b s c by simp
qed

end
